theory Spec2Isabelle
  imports Complex_Main
begin

section \<open>Maze variant (PacmanGame): constants and static geometry\<close>

text \<open>
  JavaScript numbers are modelled as mathematical reals (positions, velocities) and
  timestamps (the results of \<^verbatim>\<open>Date.now()\<close>, integral milliseconds) as integers.
  Rounding, infinities and NaN of IEEE doubles are outside the model.
\<close>

definition width :: real where "width = 500"
definition height :: real where "height = 500"

definition PAC_SIZE :: real where "PAC_SIZE = 34"
definition GHOST_SIZE :: real where "GHOST_SIZE = 34"
definition CHERRY_SIZE :: real where "CHERRY_SIZE = 26"
definition APEX_SIZE :: real where "APEX_SIZE = 36"

definition PAC_SPEED :: real where "PAC_SPEED = 16 / 5"
definition GHOST_SPEED :: real where "GHOST_SPEED = 2"
definition CHASE_RADIUS :: real where "CHASE_RADIUS = 150"
definition NUM_GHOSTS :: nat where "NUM_GHOSTS = 3"

lemmas maze_consts =
  width_def height_def PAC_SIZE_def GHOST_SIZE_def CHERRY_SIZE_def APEX_SIZE_def
  PAC_SPEED_def GHOST_SPEED_def CHASE_RADIUS_def NUM_GHOSTS_def

record barrier =
  b_x :: real
  b_y :: real
  b_w :: real
  b_h :: real

definition mk_barrier :: "real \<Rightarrow> real \<Rightarrow> real \<Rightarrow> real \<Rightarrow> barrier" where
  "mk_barrier x y w h = \<lparr>b_x = x, b_y = y, b_w = w, b_h = h\<rparr>"

definition barriers :: "barrier list" where
  "barriers =
    [ mk_barrier (width / 2 - 60) (height / 2 - 120) 120 10,
      mk_barrier (width / 2 - 60) (height / 2 + 100) 120 10,
      mk_barrier (width / 2 - 120) (height / 2 - 60) 10 120,
      mk_barrier (width / 2 + 110) (height / 2 - 60) 10 120,
      mk_barrier 50 150 10 200,
      mk_barrier (width - 60) 150 10 200,
      mk_barrier 150 40 200 10,
      mk_barrier 150 (height - 70) 200 10,
      mk_barrier 0 0 width 10,
      mk_barrier 0 (height - 10) width 10,
      mk_barrier 0 0 10 height,
      mk_barrier (width - 10) 0 10 height ]"

text \<open>The arrow function handed to \<^verbatim>\<open>barriers.some\<close> inside \<^verbatim>\<open>collidesBarrier\<close>.\<close>

definition hitsBarrier :: "real \<Rightarrow> real \<Rightarrow> real \<Rightarrow> barrier \<Rightarrow> bool" where
  "hitsBarrier x y sz b =
     (x < b_x b + b_w b \<and> x + sz > b_x b \<and> y < b_y b + b_h b \<and> y + sz > b_y b)"

definition collidesBarrier :: "real \<Rightarrow> real \<Rightarrow> real \<Rightarrow> bool" where
  "collidesBarrier x y sz = list_ex (hitsBarrier x y sz) barriers"

text \<open>
  The overlap test as the specification words it, on two boxes: the comparison partner of
  \<^const>\<open>hitsBarrier\<close>, whose first box is the square of side \<open>size\<close> at \<open>(x, y)\<close>.
\<close>

definition overlaps_spec :: "barrier \<Rightarrow> barrier \<Rightarrow> bool" where
  "overlaps_spec a b =
     (b_x a < b_x b + b_w b \<and> b_x a + b_w a > b_x b \<and>
      b_y a < b_y b + b_h b \<and> b_y a + b_h a > b_y b)"

text \<open>\<^verbatim>\<open>Math.hypot\<close> on two arguments.\<close>

definition hypot :: "real \<Rightarrow> real \<Rightarrow> real" where
  "hypot a b = sqrt (a * a + b * b)"

text \<open>
  \<^verbatim>\<open>Math.atan2(y, x)\<close> on finite reals: the angle of the point \<open>(x, y)\<close> in
  \<open>(-\<pi>, \<pi>]\<close>, and \<open>0\<close> at the origin.
\<close>

definition atan2 :: "real \<Rightarrow> real \<Rightarrow> real" where
  "atan2 y x =
     (if 0 < x then arctan (y / x)
      else if x < 0 then (if 0 \<le> y then arctan (y / x) + pi else arctan (y / x) - pi)
      else if 0 < y then pi / 2
      else if y < 0 then - (pi / 2)
      else 0)"

section \<open>Entity state\<close>

record pacman =
  p_x :: real
  p_y :: real
  p_dx :: real
  p_dy :: real

record ghost =
  g_x :: real
  g_y :: real
  g_dx :: real
  g_dy :: real
  vulnerableUntil :: int
  eatenUntil :: int

type_synonym pos = "real \<times> real"

text \<open>
  The component's state: the three React state variables and the mutable refs.
  Lifecycle: Idle is \<open>\<not> started \<and> \<not> gameOver\<close>, Running is \<open>started \<and> \<not> gameOver\<close>,
  Ended is \<open>gameOver\<close>.
\<close>

record game =
  score :: int
  started :: bool
  gameOver :: bool
  pac :: pacman
  ghosts :: "ghost list"
  cherries :: "pos list"
  apexRef :: "pos option"
  apexRespawnAt :: int

text \<open>
  \<^verbatim>\<open>Math.random()\<close> is a stream of draws \<open>rnd 0, rnd 1, \<dots>\<close>; every function that
  draws takes the index of the next draw and returns the index after its last one.
\<close>

type_synonym rng = "nat \<Rightarrow> real"

section \<open>Spawning\<close>

text \<open>
  \<^verbatim>\<open>randomPos\<close>: a do-while loop with no bound on its iterations. \<open>None\<close> is the
  loop that never leaves.
\<close>

partial_function (option) randomPos :: "rng \<Rightarrow> real \<Rightarrow> nat \<Rightarrow> (pos \<times> nat) option" where
  "randomPos rnd sz i =
     (let x = rnd i * (width - sz);
          y = rnd (i + 1) * (height - sz)
      in if collidesBarrier x y sz then randomPos rnd sz (i + 2)
         else Some ((x, y), i + 2))"

text \<open>\<^verbatim>\<open>spawnCherries(count)\<close>: \<open>count\<close> calls of \<^verbatim>\<open>randomPos(CHERRY_SIZE)\<close> in order.\<close>

fun spawnCherries :: "rng \<Rightarrow> nat \<Rightarrow> nat \<Rightarrow> (pos list \<times> nat) option" where
  "spawnCherries rnd 0 i = Some ([], i)"
| "spawnCherries rnd (Suc n) i =
     (case randomPos rnd CHERRY_SIZE i of
        None \<Rightarrow> None
      | Some (p, j) \<Rightarrow>
          (case spawnCherries rnd n j of
             None \<Rightarrow> None
           | Some (ps, k) \<Rightarrow> Some (p # ps, k)))"

text \<open>One element of \<^verbatim>\<open>spawnGhosts\<close>: a position, then an angle.\<close>

definition spawnGhost :: "rng \<Rightarrow> nat \<Rightarrow> (ghost \<times> nat) option" where
  "spawnGhost rnd i =
     (case randomPos rnd GHOST_SIZE i of
        None \<Rightarrow> None
      | Some ((x, y), j) \<Rightarrow>
          (let angle = rnd j * pi * 2
           in Some (\<lparr>g_x = x, g_y = y,
                     g_dx = cos angle * GHOST_SPEED, g_dy = sin angle * GHOST_SPEED,
                     vulnerableUntil = 0, eatenUntil = 0\<rparr>, j + 1)))"

fun spawnGhostsN :: "rng \<Rightarrow> nat \<Rightarrow> nat \<Rightarrow> (ghost list \<times> nat) option" where
  "spawnGhostsN rnd 0 i = Some ([], i)"
| "spawnGhostsN rnd (Suc n) i =
     (case spawnGhost rnd i of
        None \<Rightarrow> None
      | Some (g, j) \<Rightarrow>
          (case spawnGhostsN rnd n j of
             None \<Rightarrow> None
           | Some (gs, k) \<Rightarrow> Some (g # gs, k)))"

definition spawnGhosts :: "rng \<Rightarrow> nat \<Rightarrow> (ghost list \<times> nat) option" where
  "spawnGhosts rnd i = spawnGhostsN rnd NUM_GHOSTS i"

definition spawnApex :: "rng \<Rightarrow> nat \<Rightarrow> (pos \<times> nat) option" where
  "spawnApex rnd i = randomPos rnd APEX_SIZE i"

section \<open>The tick update of the maze variant\<close>

text \<open>Actor movement with the barrier check and the revert (the first half of the update).\<close>

definition pacStep :: "pacman \<Rightarrow> pacman" where
  "pacStep p =
     (let prevPacX = p_x p;
          prevPacY = p_y p;
          p1 = p\<lparr>p_x := p_x p + p_dx p, p_y := p_y p + p_dy p\<rparr>
      in if collidesBarrier (p_x p1) (p_y p1) PAC_SIZE
         then p1\<lparr>p_x := prevPacX, p_y := prevPacY, p_dx := 0, p_dy := 0\<rparr>
         else p1)"

text \<open>The four frame-wall clamps that follow it.\<close>

definition pacClamp :: "pacman \<Rightarrow> pacman" where
  "pacClamp p =
     (let p1 = (if p_x p < 10 then p\<lparr>p_x := 10\<rparr> else p);
          p2 = (if p_x p1 > width - PAC_SIZE - 10 then p1\<lparr>p_x := width - PAC_SIZE - 10\<rparr> else p1);
          p3 = (if p_y p2 < 10 then p2\<lparr>p_y := 10\<rparr> else p2);
          p4 = (if p_y p3 > height - PAC_SIZE - 10 then p3\<lparr>p_y := height - PAC_SIZE - 10\<rparr> else p3)
      in p4)"

definition movePacman :: "pacman \<Rightarrow> pacman" where
  "movePacman p = pacClamp (pacStep p)"

text \<open>Pursuer movement: displacement and bounce off the canvas edges.\<close>

definition bounceEdges :: "ghost \<Rightarrow> ghost" where
  "bounceEdges g =
     (let g1 = g\<lparr>g_x := g_x g + g_dx g, g_y := g_y g + g_dy g\<rparr>;
          g2 = (if g_x g1 < 0 then g1\<lparr>g_x := 0, g_dx := - g_dx g1\<rparr>
                else if g_x g1 > width - GHOST_SIZE
                then g1\<lparr>g_x := width - GHOST_SIZE, g_dx := - g_dx g1\<rparr>
                else g1);
          g3 = (if g_y g2 < 0 then g2\<lparr>g_y := 0, g_dy := - g_dy g2\<rparr>
                else if g_y g2 > height - GHOST_SIZE
                then g2\<lparr>g_y := height - GHOST_SIZE, g_dy := - g_dy g2\<rparr>
                else g2)
      in g3)"

text \<open>The whole movement: the above, then the barrier check and the revert.\<close>

definition moveGhost :: "ghost \<Rightarrow> ghost" where
  "moveGhost g =
     (let prevX = g_x g;
          prevY = g_y g;
          g3 = bounceEdges g
      in if collidesBarrier (g_x g3) (g_y g3) GHOST_SIZE
         then g3\<lparr>g_x := prevX, g_y := prevY, g_dx := - g_dx g3, g_dy := - g_dy g3\<rparr>
         else g3)"

text \<open>
  Chase or wander. The draw for the wander test is made only when the chase test fails
  (the \<^verbatim>\<open>else if\<close>), the draw for the angle only when the wander test succeeds.
\<close>

definition steerGhost :: "rng \<Rightarrow> int \<Rightarrow> pacman \<Rightarrow> ghost \<Rightarrow> nat \<Rightarrow> ghost \<times> nat" where
  "steerGhost rnd now p g i =
     (let distToPac = hypot (p_x p - g_x g) (p_y p - g_y g)
      in if distToPac < CHASE_RADIUS \<and> now \<ge> vulnerableUntil g
         then (let angleToPac = atan2 (p_y p - g_y g) (p_x p - g_x g)
               in (g\<lparr>g_dx := cos angleToPac * GHOST_SPEED,
                      g_dy := sin angleToPac * GHOST_SPEED\<rparr>, i))
         else if rnd i < 2 / 100
         then (let ang = rnd (i + 1) * pi * 2
               in (g\<lparr>g_dx := cos ang * GHOST_SPEED, g_dy := sin ang * GHOST_SPEED\<rparr>, i + 2))
         else (g, i + 1))"

text \<open>The body of the first \<^verbatim>\<open>ghosts.current.forEach\<close>.\<close>

definition updateGhost :: "rng \<Rightarrow> int \<Rightarrow> pacman \<Rightarrow> ghost \<Rightarrow> nat \<Rightarrow> ghost \<times> nat" where
  "updateGhost rnd now p g i =
     (if now < eatenUntil g then (g, i) else steerGhost rnd now p (moveGhost g) i)"

fun updateGhosts :: "rng \<Rightarrow> int \<Rightarrow> pacman \<Rightarrow> ghost list \<Rightarrow> nat \<Rightarrow> ghost list \<times> nat" where
  "updateGhosts rnd now p [] i = ([], i)"
| "updateGhosts rnd now p (g # gs) i =
     (case updateGhost rnd now p g i of
        (g', j) \<Rightarrow> (case updateGhosts rnd now p gs j of (gs', k) \<Rightarrow> (g' # gs', k)))"

text \<open>Collectibles: the \<^verbatim>\<open>filter\<close> with its score updates, then the top-up loop.\<close>

definition cherryEaten :: "pacman \<Rightarrow> pos \<Rightarrow> bool" where
  "cherryEaten p cherry =
     (hypot ((p_x p + PAC_SIZE / 2) - (fst cherry + CHERRY_SIZE / 2))
            ((p_y p + PAC_SIZE / 2) - (snd cherry + CHERRY_SIZE / 2))
        < (PAC_SIZE + CHERRY_SIZE) / 2)"

fun eatCherries :: "pacman \<Rightarrow> pos list \<Rightarrow> int \<Rightarrow> pos list \<times> int" where
  "eatCherries p [] sc = ([], sc)"
| "eatCherries p (c # cs) sc =
     (if cherryEaten p c then eatCherries p cs (sc + 1)
      else (case eatCherries p cs sc of (cs', sc') \<Rightarrow> (c # cs', sc')))"

function topUp :: "rng \<Rightarrow> pos list \<Rightarrow> nat \<Rightarrow> (pos list \<times> nat) option" where
  "topUp rnd cs i =
     (if length cs < 5
      then (case randomPos rnd CHERRY_SIZE i of
              None \<Rightarrow> None
            | Some (c, j) \<Rightarrow> topUp rnd (cs @ [c]) j)
      else Some (cs, i))"
  by pat_completeness auto
termination
  by (relation "measure (\<lambda>(rnd, cs, i). 5 - length cs)") auto

declare topUp.simps [simp del]

text \<open>
  The power-item handler. It reads the clock twice more: \<open>t1\<close> is the value of the
  \<^verbatim>\<open>Date.now()\<close> in the respawn assignment, \<open>t2\<close> of the one in the vulnerability
  assignment.
\<close>

definition apexTouched :: "pacman \<Rightarrow> pos \<Rightarrow> bool" where
  "apexTouched p a =
     (hypot (p_x p + PAC_SIZE / 2 - (fst a + APEX_SIZE / 2))
            (p_y p + PAC_SIZE / 2 - (snd a + APEX_SIZE / 2))
        < (PAC_SIZE + APEX_SIZE) / 2)"

definition apexCollision ::
  "int \<Rightarrow> int \<Rightarrow> pacman \<Rightarrow> pos option \<Rightarrow> int \<Rightarrow> ghost list \<Rightarrow> pos option \<times> int \<times> ghost list" where
  "apexCollision t1 t2 p apex respawnAt gs =
     (case apex of
        None \<Rightarrow> (apex, respawnAt, gs)
      | Some a \<Rightarrow>
          (if apexTouched p a
           then (None, t1 + 15000, map (\<lambda>g. g\<lparr>vulnerableUntil := t2 + 10000\<rparr>) gs)
           else (apex, respawnAt, gs)))"

definition apexRespawn :: "rng \<Rightarrow> int \<Rightarrow> pos option \<Rightarrow> int \<Rightarrow> nat \<Rightarrow> (pos option \<times> nat) option" where
  "apexRespawn rnd now apex respawnAt i =
     (if apex = None \<and> now > respawnAt
      then (case spawnApex rnd i of None \<Rightarrow> None | Some (a, j) \<Rightarrow> Some (Some a, j))
      else Some (apex, i))"

text \<open>
  The body of the second \<^verbatim>\<open>ghosts.current.forEach\<close>, threading the score and the
  game-over flag the two setters accumulate.
\<close>

definition ghostContact :: "pacman \<Rightarrow> ghost \<Rightarrow> bool" where
  "ghostContact p g =
     (hypot (p_x p + PAC_SIZE / 2 - (g_x g + GHOST_SIZE / 2))
            (p_y p + PAC_SIZE / 2 - (g_y g + GHOST_SIZE / 2))
        < (PAC_SIZE + GHOST_SIZE) / 2)"

definition ghostCollision ::
  "rng \<Rightarrow> int \<Rightarrow> pacman \<Rightarrow> ghost \<Rightarrow> nat \<Rightarrow> int \<Rightarrow> bool \<Rightarrow> ghost \<times> nat \<times> int \<times> bool" where
  "ghostCollision rnd now p g i sc over =
     (if now < eatenUntil g then (g, i, sc, over)
      else if ghostContact p g
      then (if now < vulnerableUntil g
            then (let ang = rnd i * pi * 2
                  in (g\<lparr>eatenUntil := now + 2000,
                         g_x := width / 2 - GHOST_SIZE / 2,
                         g_y := height / 2 - GHOST_SIZE / 2,
                         g_dx := cos ang * GHOST_SPEED,
                         g_dy := sin ang * GHOST_SPEED\<rparr>, i + 1, sc + 10, over))
            else (g, i, sc, True))
      else (g, i, sc, over))"

fun ghostCollisions ::
  "rng \<Rightarrow> int \<Rightarrow> pacman \<Rightarrow> ghost list \<Rightarrow> nat \<Rightarrow> int \<Rightarrow> bool \<Rightarrow> ghost list \<times> nat \<times> int \<times> bool" where
  "ghostCollisions rnd now p [] i sc over = ([], i, sc, over)"
| "ghostCollisions rnd now p (g # gs) i sc over =
     (case ghostCollision rnd now p g i sc over of
        (g', j, sc', over') \<Rightarrow>
          (case ghostCollisions rnd now p gs j sc' over' of
             (gs', k, sc'', over'') \<Rightarrow> (g' # gs', k, sc'', over'')))"

text \<open>
  One call of \<^verbatim>\<open>draw\<close>, update part. \<open>now\<close> is the value of the
  \<^verbatim>\<open>const now = Date.now()\<close>, \<open>t1\<close> and \<open>t2\<close> the values of the two later reads.
\<close>

definition tick :: "rng \<Rightarrow> int \<Rightarrow> int \<Rightarrow> int \<Rightarrow> game \<Rightarrow> nat \<Rightarrow> (game \<times> nat) option" where
  "tick rnd now t1 t2 s i =
     (if started s \<and> \<not> gameOver s
      then (let p = movePacman (pac s)
            in case updateGhosts rnd now p (ghosts s) i of
              (gs1, i1) \<Rightarrow>
            (case eatCherries p (cherries s) (score s) of
              (cs1, sc1) \<Rightarrow>
            (case topUp rnd cs1 i1 of
               None \<Rightarrow> None
             | Some (cs2, i2) \<Rightarrow>
            (case apexCollision t1 t2 p (apexRef s) (apexRespawnAt s) gs1 of
              (ap1, ra1, gs2) \<Rightarrow>
            (case apexRespawn rnd now ap1 ra1 i2 of
               None \<Rightarrow> None
             | Some (ap2, i3) \<Rightarrow>
            (case ghostCollisions rnd now p gs2 i3 sc1 (gameOver s) of
              (gs3, i4, sc2, over) \<Rightarrow>
                Some (s\<lparr>score := sc2, gameOver := over, pac := p, ghosts := gs3,
                        cherries := cs2, apexRef := ap2, apexRespawnAt := ra1\<rparr>, i4)))))))
      else Some (s, i))"

section \<open>Lifecycle and input of the maze variant\<close>

definition startPacman :: pacman where
  "startPacman = \<lparr>p_x = width / 2, p_y = height / 2, p_dx = 0, p_dy = 0\<rparr>"

definition resetGame :: "rng \<Rightarrow> game \<Rightarrow> nat \<Rightarrow> (game \<times> nat) option" where
  "resetGame rnd s i =
     (case spawnGhosts rnd i of
        None \<Rightarrow> None
      | Some (gs, j) \<Rightarrow>
          (case spawnCherries rnd 5 j of
             None \<Rightarrow> None
           | Some (cs, k) \<Rightarrow>
               Some (s\<lparr>pac := startPacman, ghosts := gs, cherries := cs,
                       score := 0, gameOver := False, started := False\<rparr>, k)))"

text \<open>The \<^verbatim>\<open>switch\<close> of the key handler; \<open>code\<close> is \<^verbatim>\<open>e.code\<close>.\<close>

definition steerPacman :: "string \<Rightarrow> pacman \<Rightarrow> pacman" where
  "steerPacman code p =
     (if code = ''ArrowUp'' \<or> code = ''KeyW'' then p\<lparr>p_dy := - PAC_SPEED, p_dx := 0\<rparr>
      else if code = ''ArrowDown'' \<or> code = ''KeyS'' then p\<lparr>p_dy := PAC_SPEED, p_dx := 0\<rparr>
      else if code = ''ArrowLeft'' \<or> code = ''KeyA'' then p\<lparr>p_dx := - PAC_SPEED, p_dy := 0\<rparr>
      else if code = ''ArrowRight'' \<or> code = ''KeyD'' then p\<lparr>p_dx := PAC_SPEED, p_dy := 0\<rparr>
      else p)"

definition handleKey :: "rng \<Rightarrow> string \<Rightarrow> game \<Rightarrow> nat \<Rightarrow> (game \<times> nat) option" where
  "handleKey rnd code s i =
     (let s1 = (if \<not> started s \<and> \<not> gameOver s then s\<lparr>started := True\<rparr> else s)
      in if gameOver s
         then (case resetGame rnd s1 i of
                 None \<Rightarrow> None
               | Some (s2, j) \<Rightarrow> Some (s2\<lparr>started := True\<rparr>, j))
         else Some (s1\<lparr>pac := steerPacman code (pac s1)\<rparr>, i))"

definition handleClick :: "rng \<Rightarrow> game \<Rightarrow> nat \<Rightarrow> (game \<times> nat) option" where
  "handleClick rnd s i =
     (if \<not> started s then Some (s\<lparr>started := True\<rparr>, i)
      else if gameOver s
      then (case resetGame rnd s i of
              None \<Rightarrow> None
            | Some (s2, j) \<Rightarrow> Some (s2\<lparr>started := True\<rparr>, j))
      else Some (s, i))"

text \<open>
  The state after mounting: the initial values of the state variables and refs, then the
  initial spawn effect (cherries, ghosts, power-item).
\<close>

definition initGame :: "rng \<Rightarrow> nat \<Rightarrow> (game \<times> nat) option" where
  "initGame rnd i =
     (case spawnCherries rnd 5 i of
        None \<Rightarrow> None
      | Some (cs, j) \<Rightarrow>
          (case spawnGhosts rnd j of
             None \<Rightarrow> None
           | Some (gs, k) \<Rightarrow>
               (case spawnApex rnd k of
                  None \<Rightarrow> None
                | Some (a, l) \<Rightarrow>
                    Some (\<lparr>score = 0, started = False, gameOver = False, pac = startPacman,
                           ghosts = gs, cherries = cs, apexRef = Some a,
                           apexRespawnAt = 0\<rparr>, l))))"

section \<open>Flight variant (FlappyGame)\<close>

definition flappy_width :: real where "flappy_width = 400"
definition flappy_height :: real where "flappy_height = 600"
definition birdRadius :: real where "birdRadius = 12"
definition gravity :: real where "gravity = 35 / 100"
definition flapStrength :: real where "flapStrength = - 6"
definition pipeWidth :: real where "pipeWidth = 50"
definition gapHeight :: real where "gapHeight = 140"
definition pipeSpeed :: real where "pipeSpeed = 15 / 10"

lemmas flappy_consts =
  flappy_width_def flappy_height_def birdRadius_def gravity_def flapStrength_def
  pipeWidth_def gapHeight_def pipeSpeed_def

record pipe =
  pipe_x :: real
  gapY :: real
  scored :: bool

record flappy =
  f_score :: int
  f_gameOver :: bool
  f_started :: bool
  birdY :: real
  velocity :: real
  pipes :: "pipe list"
  frameCounter :: nat

text \<open>The body of \<^verbatim>\<open>pipes.current.forEach\<close>: scroll, then score on passing the bird.\<close>

definition scorePipe :: "pipe \<Rightarrow> int \<Rightarrow> pipe \<times> int" where
  "scorePipe p sc =
     (let p1 = p\<lparr>pipe_x := pipe_x p - pipeSpeed\<rparr>
      in if \<not> scored p1 \<and> pipe_x p1 + pipeWidth < flappy_width / 4
         then (p1\<lparr>scored := True\<rparr>, sc + 1)
         else (p1, sc))"

fun scorePipes :: "pipe list \<Rightarrow> int \<Rightarrow> pipe list \<times> int" where
  "scorePipes [] sc = ([], sc)"
| "scorePipes (p # ps) sc =
     (case scorePipe p sc of
        (p', sc') \<Rightarrow> (case scorePipes ps sc' of (ps', sc'') \<Rightarrow> (p' # ps', sc'')))"

definition hitsPipe :: "real \<Rightarrow> pipe \<Rightarrow> bool" where
  "hitsPipe y p =
     (let birdX = flappy_width / 4;
          withinX = (birdX + birdRadius > pipe_x p \<and> birdX - birdRadius < pipe_x p + pipeWidth)
      in if \<not> withinX then False
         else (let withinGap = (y - birdRadius > gapY p \<and> y + birdRadius < gapY p + gapHeight)
               in \<not> withinGap))"

text \<open>One call of \<^verbatim>\<open>draw\<close>, physics part.\<close>

definition flappy_tick :: "rng \<Rightarrow> flappy \<Rightarrow> nat \<Rightarrow> flappy \<times> nat" where
  "flappy_tick rnd s i =
     (if f_started s \<and> \<not> f_gameOver s
      then (let v = velocity s + gravity;
                y = birdY s + v;
                spawn = (frameCounter s mod 90 = 0);
                ps0 = (if spawn
                       then pipes s @
                            [\<lparr>pipe_x = flappy_width,
                              gapY = rnd i * (flappy_height - gapHeight - 120) + 60,
                              scored = False\<rparr>]
                       else pipes s);
                i1 = (if spawn then i + 1 else i)
            in case scorePipes ps0 (f_score s) of
              (ps1, sc) \<Rightarrow>
                (let ps2 = filter (\<lambda>p. pipe_x p + pipeWidth > 0) ps1;
                     hitGround = (y + birdRadius > flappy_height);
                     hitCeiling = (y - birdRadius < 0);
                     hitPipe = list_ex (hitsPipe y) ps2
                 in (s\<lparr>velocity := v, birdY := y, pipes := ps2,
                        frameCounter := frameCounter s + 1, f_score := sc,
                        f_gameOver := (hitGround \<or> hitCeiling \<or> hitPipe)\<rparr>, i1)))
      else (s, i))"

definition flappy_resetGame :: "flappy \<Rightarrow> flappy" where
  "flappy_resetGame s =
     s\<lparr>birdY := flappy_height / 2, velocity := 0, pipes := [], f_score := 0,
       f_gameOver := False, frameCounter := 0\<rparr>"

definition flap :: "flappy \<Rightarrow> flappy" where
  "flap s =
     (let s1 = (if \<not> f_started s then s\<lparr>f_started := True\<rparr> else s)
      in if f_gameOver s then (flappy_resetGame s1)\<lparr>f_started := True\<rparr>
         else s1\<lparr>velocity := flapStrength\<rparr>)"

definition flappy_handleKey :: "string \<Rightarrow> flappy \<Rightarrow> flappy" where
  "flappy_handleKey code s = (if code = ''Space'' then flap s else s)"


section \<open>Reachable states and the properties stated of them\<close>

text \<open>
  The states of the maze variant that a session can be in: the mounted state, and
  whatever ticks, key presses and pointer presses make of it, for any random draws and
  any clock.
\<close>

inductive reachable :: "game \<Rightarrow> bool" where
  reach_init: "initGame rnd i = Some (s, j) \<Longrightarrow> reachable s"
| reach_tick: "reachable s \<Longrightarrow> tick rnd now t1 t2 s i = Some (s', j) \<Longrightarrow> reachable s'"
| reach_key: "reachable s \<Longrightarrow> handleKey rnd code s i = Some (s', j) \<Longrightarrow> reachable s'"
| reach_click: "reachable s \<Longrightarrow> handleClick rnd s i = Some (s', j) \<Longrightarrow> reachable s'"

text \<open>
  The same for the flight variant: the mounted state, ticks, key presses and pointer
  presses.
\<close>

definition flappy_init :: flappy where
  "flappy_init =
     \<lparr>f_score = 0, f_gameOver = False, f_started = False, birdY = flappy_height / 2,
      velocity = 0, pipes = [], frameCounter = 0\<rparr>"

inductive flappy_reachable :: "flappy \<Rightarrow> bool" where
  freach_init: "flappy_reachable flappy_init"
| freach_tick: "flappy_reachable s \<Longrightarrow> flappy_reachable (fst (flappy_tick rnd s i))"
| freach_key: "flappy_reachable s \<Longrightarrow> flappy_reachable (flappy_handleKey code s)"
| freach_click: "flappy_reachable s \<Longrightarrow> flappy_reachable (flap s)"

text \<open>The actor's, and a pursuer's, bounding box overlaps no static barrier.\<close>

definition pacClear :: "pacman \<Rightarrow> bool" where
  "pacClear p = (\<not> collidesBarrier (p_x p) (p_y p) PAC_SIZE)"

definition ghostClear :: "ghost \<Rightarrow> bool" where
  "ghostClear g = (\<not> collidesBarrier (g_x g) (g_y g) GHOST_SIZE)"

text \<open>The actor is inside the frame walls.\<close>

definition inFrame :: "pacman \<Rightarrow> bool" where
  "inFrame p =
     (10 \<le> p_x p \<and> p_x p \<le> width - PAC_SIZE - 10 \<and>
      10 \<le> p_y p \<and> p_y p \<le> height - PAC_SIZE - 10)"

text \<open>The actor's velocity is one the key handler or the revert can have set.\<close>

definition pacSlow :: "pacman \<Rightarrow> bool" where
  "pacSlow p = (\<bar>p_dx p\<bar> \<le> PAC_SPEED \<and> \<bar>p_dy p\<bar> \<le> PAC_SPEED)"

text \<open>A pursuer moves at the constant pursuer speed.\<close>

definition ghostSpeed :: "ghost \<Rightarrow> real" where
  "ghostSpeed g = hypot (g_dx g) (g_dy g)"

text \<open>What holds of every reachable state of the maze variant.\<close>

definition gameInv :: "game \<Rightarrow> bool" where
  "gameInv s =
     (pacClear (pac s) \<and> inFrame (pac s) \<and> pacSlow (pac s) \<and>
      list_all ghostClear (ghosts s) \<and>
      list_all (\<lambda>g. ghostSpeed g = GHOST_SPEED) (ghosts s) \<and>
      0 \<le> score s \<and> (started s \<or> score s = 0))"

text \<open>
  The timed effects as queries of the tick's timestamp, and the two ways a pursuer in
  contact with the actor resolves in the collision loop.
\<close>

definition isHidden :: "int \<Rightarrow> ghost \<Rightarrow> bool" where
  "isHidden now g = (now < eatenUntil g)"

definition isVulnerable :: "int \<Rightarrow> ghost \<Rightarrow> bool" where
  "isVulnerable now g = (now < vulnerableUntil g)"

definition capturable :: "int \<Rightarrow> pacman \<Rightarrow> ghost \<Rightarrow> bool" where
  "capturable now p g = (\<not> isHidden now g \<and> ghostContact p g \<and> isVulnerable now g)"

definition fatal :: "int \<Rightarrow> pacman \<Rightarrow> ghost \<Rightarrow> bool" where
  "fatal now p g = (\<not> isHidden now g \<and> ghostContact p g \<and> \<not> isVulnerable now g)"

text \<open>
  The pursuers as the collision loop of a tick finds them: after the movement loop and
  the power-item handler.
\<close>

definition ghostsAtCollision :: "rng \<Rightarrow> int \<Rightarrow> int \<Rightarrow> int \<Rightarrow> game \<Rightarrow> nat \<Rightarrow> ghost list" where
  "ghostsAtCollision rnd now t1 t2 s i =
     (case updateGhosts rnd now (movePacman (pac s)) (ghosts s) i of
        (gs1, i1) \<Rightarrow>
          (case apexCollision t1 t2 (movePacman (pac s)) (apexRef s) (apexRespawnAt s) gs1 of
             (ap1, ra1, gs2) \<Rightarrow> gs2))"

text \<open>What the capture of a pursuer \<open>g\<close> at time \<open>now\<close> leaves of it.\<close>

definition captured :: "int \<Rightarrow> ghost \<Rightarrow> ghost \<Rightarrow> bool" where
  "captured now g g' =
     (eatenUntil g' = now + 2000 \<and>
      g_x g' = width / 2 - GHOST_SIZE / 2 \<and> g_y g' = height / 2 - GHOST_SIZE / 2 \<and>
      (\<exists>d. 0 \<le> d \<and> d < 1 \<and>
         g_dx g' = cos (d * pi * 2) * GHOST_SPEED \<and> g_dy g' = sin (d * pi * 2) * GHOST_SPEED) \<and>
      vulnerableUntil g' = vulnerableUntil g)"

text \<open>The chase test of the steering: within the chase radius and not vulnerable.\<close>

definition chasing :: "int \<Rightarrow> pacman \<Rightarrow> ghost \<Rightarrow> bool" where
  "chasing now p g =
     (hypot (p_x p - g_x g) (p_y p - g_y g) < CHASE_RADIUS \<and> \<not> isVulnerable now g)"

text \<open>The draws are results of \<^verbatim>\<open>Math.random()\<close>: at least 0, below 1.\<close>

definition unitDraws :: "rng \<Rightarrow> bool" where
  "unitDraws rnd = (\<forall>n. 0 \<le> rnd n \<and> rnd n < 1)"

text \<open>
  The \<open>k\<close>-th position \<^const>\<open>randomPos\<close> tries when its first draw has index \<open>i\<close>.
\<close>

definition sample :: "rng \<Rightarrow> real \<Rightarrow> nat \<Rightarrow> nat \<Rightarrow> pos" where
  "sample rnd sz i k = (rnd (i + 2 * k) * (width - sz), rnd (i + 2 * k + 1) * (height - sz))"

definition blocked :: "rng \<Rightarrow> real \<Rightarrow> nat \<Rightarrow> nat \<Rightarrow> bool" where
  "blocked rnd sz i k = collidesBarrier (fst (sample rnd sz i k)) (snd (sample rnd sz i k)) sz"

text \<open>
  An obstacle has passed the bird after the scroll of the coming tick: the test of the
  scoring loop, on the position before the scroll.
\<close>

definition passing :: "pipe \<Rightarrow> bool" where
  "passing p = (pipe_x p - pipeSpeed + pipeWidth < flappy_width / 4)"

section \<open>Example sessions\<close>

text \<open>
  Every draw is \<open>1/2\<close>, so everything spawns around the centre of the maze: the state
  after mounting, after pressing the right-arrow key, and after one tick at time 1000,
  in which the actor takes all five collectibles and the power-item and then captures the
  three pursuers.
\<close>

definition demo_rnd :: rng where
  "demo_rnd = (\<lambda>n. 1 / 2)"

definition demo_ghost :: ghost where
  "demo_ghost = \<lparr>g_x = 233, g_y = 233, g_dx = - 2, g_dy = 0,
                  vulnerableUntil = 0, eatenUntil = 0\<rparr>"

definition demo_init :: game where
  "demo_init =
     \<lparr>score = 0, started = False, gameOver = False,
      pac = \<lparr>p_x = 250, p_y = 250, p_dx = 0, p_dy = 0\<rparr>,
      ghosts = [demo_ghost, demo_ghost, demo_ghost],
      cherries = [(237, 237), (237, 237), (237, 237), (237, 237), (237, 237)],
      apexRef = Some (232, 232), apexRespawnAt = 0\<rparr>"

definition demo_running :: game where
  "demo_running =
     demo_init\<lparr>started := True, pac := \<lparr>p_x = 250, p_y = 250, p_dx = 16 / 5, p_dy = 0\<rparr>\<rparr>"

definition demo_eaten :: ghost where
  "demo_eaten = \<lparr>g_x = 233, g_y = 233, g_dx = - 2, g_dy = 0,
                  vulnerableUntil = 11000, eatenUntil = 3000\<rparr>"

definition demo_after :: game where
  "demo_after =
     \<lparr>score = 35, started = True, gameOver = False,
      pac = \<lparr>p_x = 1266 / 5, p_y = 250, p_dx = 16 / 5, p_dy = 0\<rparr>,
      ghosts = [demo_eaten, demo_eaten, demo_eaten],
      cherries = [(237, 237), (237, 237), (237, 237), (237, 237), (237, 237)],
      apexRef = None, apexRespawnAt = 16000\<rparr>"

text \<open>
  The example session, continued. A second tick at time 1016 finds the three captured
  pursuers hidden under the actor; a second tick at time 12000 instead finds them back in
  play and harmful, and ends the game; a key press then restarts it.
\<close>

definition demo_hidden_tick :: game where
  "demo_hidden_tick =
     demo_after\<lparr>score := 40, pac := \<lparr>p_x = 1282 / 5, p_y = 250, p_dx = 16 / 5, p_dy = 0\<rparr>\<rparr>"

definition demo_chaser :: ghost where
  "demo_chaser =
     \<lparr>g_x = 231, g_y = 233,
      g_dx = cos (atan2 17 (127 / 5)) * 2, g_dy = sin (atan2 17 (127 / 5)) * 2,
      vulnerableUntil = 11000, eatenUntil = 3000\<rparr>"

definition demo_ended :: game where
  "demo_ended =
     \<lparr>score = 40, started = True, gameOver = True,
      pac = \<lparr>p_x = 1282 / 5, p_y = 250, p_dx = 16 / 5, p_dy = 0\<rparr>,
      ghosts = [demo_chaser, demo_chaser, demo_chaser],
      cherries = [(237, 237), (237, 237), (237, 237), (237, 237), (237, 237)],
      apexRef = None, apexRespawnAt = 16000\<rparr>"

definition demo_restarted :: game where
  "demo_restarted =
     \<lparr>score = 0, started = True, gameOver = False,
      pac = \<lparr>p_x = 250, p_y = 250, p_dx = 0, p_dy = 0\<rparr>,
      ghosts = [demo_ghost, demo_ghost, demo_ghost],
      cherries = [(237, 237), (237, 237), (237, 237), (237, 237), (237, 237)],
      apexRef = None, apexRespawnAt = 16000\<rparr>"

text \<open>
  The first tick of the example session again, with the clock advancing between its three
  reads: 1000, then 1003 and 1007 inside the power-item handler.
\<close>

definition demo_skewed :: game where
  "demo_skewed =
     demo_after\<lparr>apexRespawnAt := 16003,
       ghosts := [demo_eaten\<lparr>vulnerableUntil := 11007\<rparr>, demo_eaten\<lparr>vulnerableUntil := 11007\<rparr>,
                  demo_eaten\<lparr>vulnerableUntil := 11007\<rparr>]\<rparr>"

text \<open>The draws that are all \<open>0\<close>, a value \<^verbatim>\<open>Math.random()\<close> may return.\<close>

definition zero_rnd :: rng where
  "zero_rnd = (\<lambda>n. 0)"

text \<open>Draws whose first position is blocked and whose second is clear.\<close>

definition retry_rnd :: rng where
  "retry_rnd = (\<lambda>n. if n < 2 then 0 else 1 / 2)"

text \<open>Draws whose first \<open>k\<close> positions are blocked and whose next one is clear.\<close>

definition late_rnd :: "nat \<Rightarrow> rng" where
  "late_rnd k = (\<lambda>n. if n < 2 * k then 0 else 1 / 2)"

text \<open>An example: one unscored obstacle about to pass the bird, in a running session.\<close>

definition demo_pipe :: pipe where
  "demo_pipe = \<lparr>pipe_x = 51, gapY = 200, scored = False\<rparr>"

definition demo_flappy :: flappy where
  "demo_flappy =
     \<lparr>f_score = 0, f_gameOver = False, f_started = True, birdY = 300, velocity = 0,
      pipes = [demo_pipe], frameCounter = 1\<rparr>"

text \<open>
  The index of the next draw when the movement loop of a tick reaches the \<open>k\<close>-th
  pursuer, and what the movement loop compares of two pursuers: position, velocity and
  hide-after-capture time.
\<close>

definition steerIndex :: "rng \<Rightarrow> int \<Rightarrow> pacman \<Rightarrow> ghost list \<Rightarrow> nat \<Rightarrow> nat \<Rightarrow> nat" where
  "steerIndex rnd now p gs i k = snd (updateGhosts rnd now p (take k gs) i)"

definition sameMotion :: "ghost \<Rightarrow> ghost \<Rightarrow> bool" where
  "sameMotion a b =
     (g_x a = g_x b \<and> g_y a = g_y b \<and> g_dx a = g_dx b \<and> g_dy a = g_dy b \<and>
      eatenUntil a = eatenUntil b)"

text \<open>
  A second example session: the pursuers spawn at \<open>(15, 200)\<close>, left of the left bar and
  heading for it; a key that steers nothing starts the game; in the first tick, at time
  1000, the bar turns all three around.
\<close>

definition wall_rnd :: rng where
  "wall_rnd =
     (\<lambda>n. if 10 \<le> n \<and> n < 19
          then (if n mod 3 = 1 then 15 / 466 else if n mod 3 = 2 then 100 / 233 else 0)
          else 1 / 2)"

definition wall_ghost :: ghost where
  "wall_ghost = \<lparr>g_x = 15, g_y = 200, g_dx = 2, g_dy = 0,
                  vulnerableUntil = 0, eatenUntil = 0\<rparr>"

definition wall_init :: game where
  "wall_init =
     \<lparr>score = 0, started = False, gameOver = False,
      pac = \<lparr>p_x = 250, p_y = 250, p_dx = 0, p_dy = 0\<rparr>,
      ghosts = [wall_ghost, wall_ghost, wall_ghost],
      cherries = [(237, 237), (237, 237), (237, 237), (237, 237), (237, 237)],
      apexRef = Some (232, 232), apexRespawnAt = 0\<rparr>"

definition wall_running :: game where
  "wall_running = wall_init\<lparr>started := True\<rparr>"

definition wall_turned :: ghost where
  "wall_turned = \<lparr>g_x = 15, g_y = 200, g_dx = - 2, g_dy = 0,
                   vulnerableUntil = 11000, eatenUntil = 0\<rparr>"

definition wall_after :: game where
  "wall_after =
     \<lparr>score = 5, started = True, gameOver = False,
      pac = \<lparr>p_x = 250, p_y = 250, p_dx = 0, p_dy = 0\<rparr>,
      ghosts = [wall_turned, wall_turned, wall_turned],
      cherries = [(237, 237), (237, 237), (237, 237), (237, 237), (237, 237)],
      apexRef = None, apexRespawnAt = 16000\<rparr>"

section \<open>Auxiliary facts\<close>

lemma hypot_less_iff: "0 < r \<Longrightarrow> hypot a b < r \<longleftrightarrow> a * a + b * b < r * r"
proof -
  assume r: "0 < r"
  have "sqrt (a * a + b * b) < sqrt (r * r) \<longleftrightarrow> a * a + b * b < r * r"
    by (rule real_sqrt_less_iff)
  moreover have "sqrt (r * r) = r" using r by simp
  ultimately show ?thesis by (simp add: hypot_def)
qed

lemma randomPos_clear_aux:
  "randomPos rnd sz i = Some y \<Longrightarrow> \<not> collidesBarrier (fst (fst y)) (snd (fst y)) sz"
proof (rule randomPos.raw_induct
    [where P = "\<lambda>rnd sz i y. \<not> collidesBarrier (fst (fst y)) (snd (fst y)) sz"])
  fix f rnd' sz' i' y'
  assume IH: "\<And>rnd sz i y. f rnd sz i = Some y \<Longrightarrow> \<not> collidesBarrier (fst (fst y)) (snd (fst y)) sz"
    and step: "(let x = rnd' i' * (width - sz'); y = rnd' (i' + 1) * (height - sz')
        in if collidesBarrier x y sz' then f rnd' sz' (i' + 2) else Some ((x, y), i' + 2)) = Some y'"
  show "\<not> collidesBarrier (fst (fst y')) (snd (fst y')) sz'"
  proof (cases "collidesBarrier (rnd' i' * (width - sz')) (rnd' (i' + 1) * (height - sz')) sz'")
    case True
    with step have "f rnd' sz' (i' + 2) = Some y'" by (simp add: Let_def)
    then show ?thesis by (rule IH)
  next
    case False
    with step show ?thesis by (auto simp: Let_def)
  qed
qed

lemma randomPos_clear:
  "randomPos rnd sz i = Some ((x, y), j) \<Longrightarrow> \<not> collidesBarrier x y sz"
  using randomPos_clear_aux [of rnd sz i "((x, y), j)"] by simp

lemma randomPos_first:
  "\<not> collidesBarrier (rnd i * (width - sz)) (rnd (i + 1) * (height - sz)) sz \<Longrightarrow>
   randomPos rnd sz i = Some ((rnd i * (width - sz), rnd (i + 1) * (height - sz)), i + 2)"
  by (subst randomPos.simps) (simp add: Let_def)

lemma spawnCherries_clear:
  "spawnCherries rnd n i = Some (cs, j) \<Longrightarrow>
   list_all (\<lambda>c. \<not> collidesBarrier (fst c) (snd c) CHERRY_SIZE) cs"
proof (induction n arbitrary: i cs j)
  case 0
  then show ?case by simp
next
  case (Suc n)
  from Suc.prems obtain c k cs' where
    a: "randomPos rnd CHERRY_SIZE i = Some (c, k)" and
    b: "spawnCherries rnd n k = Some (cs', j)" and c: "cs = c # cs'"
    by (auto split: option.splits)
  from randomPos_clear_aux [OF a] have "\<not> collidesBarrier (fst c) (snd c) CHERRY_SIZE"
    by simp
  with Suc.IH [OF b] c show ?case by simp
qed

lemma spawnGhost_clear: "spawnGhost rnd i = Some (g, j) \<Longrightarrow> ghostClear g"
proof -
  assume a: "spawnGhost rnd i = Some (g, j)"
  then obtain x y k where r: "randomPos rnd GHOST_SIZE i = Some ((x, y), k)"
    and g: "g_x g = x" "g_y g = y"
    by (auto simp: spawnGhost_def Let_def split: option.splits)
  from randomPos_clear [OF r] g show ?thesis by (simp add: ghostClear_def)
qed

lemma spawnGhostsN_clear:
  "spawnGhostsN rnd n i = Some (gs, j) \<Longrightarrow> list_all ghostClear gs"
proof (induction n arbitrary: i gs j)
  case 0
  then show ?case by simp
next
  case (Suc n)
  from Suc.prems obtain g k gs' where
    a: "spawnGhost rnd i = Some (g, k)" and
    b: "spawnGhostsN rnd n k = Some (gs', j)" and c: "gs = g # gs'"
    by (auto split: option.splits)
  from spawnGhost_clear [OF a] Suc.IH [OF b] c show ?case by simp
qed

lemma collides_unfold:
  "collidesBarrier x y sz \<longleftrightarrow>
     (x < 310 \<and> x + sz > 190 \<and> y < 140 \<and> y + sz > 130) \<or>
     (x < 310 \<and> x + sz > 190 \<and> y < 360 \<and> y + sz > 350) \<or>
     (x < 140 \<and> x + sz > 130 \<and> y < 310 \<and> y + sz > 190) \<or>
     (x < 370 \<and> x + sz > 360 \<and> y < 310 \<and> y + sz > 190) \<or>
     (x < 60 \<and> x + sz > 50 \<and> y < 350 \<and> y + sz > 150) \<or>
     (x < 450 \<and> x + sz > 440 \<and> y < 350 \<and> y + sz > 150) \<or>
     (x < 350 \<and> x + sz > 150 \<and> y < 50 \<and> y + sz > 40) \<or>
     (x < 350 \<and> x + sz > 150 \<and> y < 440 \<and> y + sz > 430) \<or>
     (x < 500 \<and> x + sz > 0 \<and> y < 10 \<and> y + sz > 0) \<or>
     (x < 500 \<and> x + sz > 0 \<and> y < 500 \<and> y + sz > 490) \<or>
     (x < 10 \<and> x + sz > 0 \<and> y < 500 \<and> y + sz > 0) \<or>
     (x < 500 \<and> x + sz > 490 \<and> y < 500 \<and> y + sz > 0)"
  by (simp add: collidesBarrier_def barriers_def mk_barrier_def hitsBarrier_def maze_consts)

lemma pacStep_clear: "pacClear p \<Longrightarrow> pacClear (pacStep p)"
  by (simp add: pacStep_def pacClear_def Let_def)

lemma pacStep_slow: "pacSlow p \<Longrightarrow> pacSlow (pacStep p)"
  by (simp add: pacStep_def pacSlow_def Let_def PAC_SPEED_def)

lemma pacStep_inFrame:
  assumes "pacClear p" "inFrame p" "pacSlow p"
  shows "inFrame (pacStep p)"
proof (cases "collidesBarrier (p_x p + p_dx p) (p_y p + p_dy p) PAC_SIZE")
  case True
  then show ?thesis using assms by (simp add: pacStep_def inFrame_def Let_def)
next
  case False
  then have "\<not> collidesBarrier (p_x p + p_dx p) (p_y p + p_dy p) 34"
    by (simp add: PAC_SIZE_def)
  moreover have "\<bar>p_dx p\<bar> \<le> 16 / 5" "\<bar>p_dy p\<bar> \<le> 16 / 5"
    using assms(3) by (simp_all add: pacSlow_def PAC_SPEED_def)
  moreover have "10 \<le> p_x p" "p_x p \<le> 456" "10 \<le> p_y p" "p_y p \<le> 456"
    using assms(2) by (simp_all add: inFrame_def maze_consts)
  ultimately have "10 \<le> p_x p + p_dx p \<and> p_x p + p_dx p \<le> 456 \<and>
      10 \<le> p_y p + p_dy p \<and> p_y p + p_dy p \<le> 456"
    unfolding collides_unfold by argo
  then show ?thesis using False
    by (simp add: pacStep_def inFrame_def Let_def maze_consts)
qed

lemma pacClamp_id: "inFrame p \<Longrightarrow> pacClamp p = p"
  by (simp add: pacClamp_def inFrame_def Let_def)

lemma pacClamp_inFrame: "inFrame (pacClamp p)"
  by (simp add: pacClamp_def inFrame_def Let_def maze_consts)

lemma movePacman_inv:
  assumes "pacClear p" "inFrame p" "pacSlow p"
  shows "movePacman p = pacStep p" "pacClear (movePacman p)" "inFrame (movePacman p)"
    "pacSlow (movePacman p)"
  using assms pacStep_inFrame [OF assms] pacStep_clear pacStep_slow
  by (simp_all add: movePacman_def pacClamp_id)

subsection \<open>Pursuers keep clear of barriers and keep their speed\<close>

lemma hypot_neg [simp]: "hypot (- a) b = hypot a b" "hypot a (- b) = hypot a b"
  by (simp_all add: hypot_def)

lemma hypot_polar: "0 \<le> r \<Longrightarrow> hypot (cos a * r) (sin a * r) = r"
proof -
  assume r: "0 \<le> r"
  have "cos a * cos a + sin a * sin a = 1" by simp
  then have "cos a * r * (cos a * r) + sin a * r * (sin a * r) = r * r"
    by algebra
  then show ?thesis using r by (simp add: hypot_def)
qed

lemma bounceEdges_speed: "ghostSpeed (bounceEdges g) = ghostSpeed g"
  by (simp add: bounceEdges_def ghostSpeed_def Let_def)

lemma moveGhost_speed: "ghostSpeed (moveGhost g) = ghostSpeed g"
  using bounceEdges_speed [of g] by (simp add: moveGhost_def ghostSpeed_def Let_def)

lemma moveGhost_clear: "ghostClear g \<Longrightarrow> ghostClear (moveGhost g)"
  by (simp add: moveGhost_def ghostClear_def Let_def)

lemma moveGhost_timers [simp]:
  "vulnerableUntil (moveGhost g) = vulnerableUntil g" "eatenUntil (moveGhost g) = eatenUntil g"
  by (simp_all add: moveGhost_def bounceEdges_def Let_def)

lemma steerGhost_pos [simp]:
  "g_x (fst (steerGhost rnd now p g i)) = g_x g"
  "g_y (fst (steerGhost rnd now p g i)) = g_y g"
  "vulnerableUntil (fst (steerGhost rnd now p g i)) = vulnerableUntil g"
  "eatenUntil (fst (steerGhost rnd now p g i)) = eatenUntil g"
  by (simp_all add: steerGhost_def Let_def)

lemma steerGhost_speed:
  "ghostSpeed g = GHOST_SPEED \<Longrightarrow> ghostSpeed (fst (steerGhost rnd now p g i)) = GHOST_SPEED"
  by (simp add: steerGhost_def Let_def ghostSpeed_def hypot_polar GHOST_SPEED_def)

lemma updateGhost_clear: "ghostClear g \<Longrightarrow> ghostClear (fst (updateGhost rnd now p g i))"
  using moveGhost_clear [of g] by (simp add: updateGhost_def ghostClear_def)

lemma updateGhost_speed:
  "ghostSpeed g = GHOST_SPEED \<Longrightarrow> ghostSpeed (fst (updateGhost rnd now p g i)) = GHOST_SPEED"
  by (simp add: updateGhost_def steerGhost_speed moveGhost_speed)

lemma updateGhost_timers [simp]:
  "vulnerableUntil (fst (updateGhost rnd now p g i)) = vulnerableUntil g"
  "eatenUntil (fst (updateGhost rnd now p g i)) = eatenUntil g"
  by (simp_all add: updateGhost_def)

lemma updateGhosts_all:
  assumes "\<And>g i. P g \<Longrightarrow> P (fst (updateGhost rnd now p g i))"
  shows "list_all P gs \<Longrightarrow> list_all P (fst (updateGhosts rnd now p gs i))"
proof (induction gs arbitrary: i)
  case Nil
  then show ?case by simp
next
  case (Cons g gs)
  then show ?case using assms [of g i]
    by (simp add: case_prod_beta)
qed

lemma updateGhosts_length: "length (fst (updateGhosts rnd now p gs i)) = length gs"
  by (induction gs arbitrary: i) (simp_all add: case_prod_beta)

lemma center_clear: "\<not> collidesBarrier (width / 2 - GHOST_SIZE / 2) (height / 2 - GHOST_SIZE / 2) GHOST_SIZE"
  by (simp add: collides_unfold maze_consts)

lemma ghostCollision_clear:
  "ghostClear g \<Longrightarrow> ghostClear (fst (ghostCollision rnd now p g i sc over))"
  using center_clear by (simp add: ghostCollision_def ghostClear_def Let_def)

lemma ghostCollision_speed:
  "ghostSpeed g = GHOST_SPEED \<Longrightarrow>
   ghostSpeed (fst (ghostCollision rnd now p g i sc over)) = GHOST_SPEED"
  by (simp add: ghostCollision_def Let_def ghostSpeed_def hypot_polar GHOST_SPEED_def)

lemma ghostCollisions_all:
  assumes "\<And>g i sc over. P g \<Longrightarrow> P (fst (ghostCollision rnd now p g i sc over))"
  shows "list_all P gs \<Longrightarrow> list_all P (fst (ghostCollisions rnd now p gs i sc over))"
proof (induction gs arbitrary: i sc over)
  case Nil
  then show ?case by simp
next
  case (Cons g gs)
  obtain g' j sc' over' where a: "ghostCollision rnd now p g i sc over = (g', j, sc', over')"
    by (cases "ghostCollision rnd now p g i sc over") auto
  obtain gs' k sc'' over'' where
    b: "ghostCollisions rnd now p gs j sc' over' = (gs', k, sc'', over'')"
    by (cases "ghostCollisions rnd now p gs j sc' over'") auto
  from Cons.prems have "P g" "list_all P gs" by simp_all
  from assms [OF \<open>P g\<close>, of i sc over] a have "P g'" by simp
  moreover from Cons.IH [OF \<open>list_all P gs\<close>, of j sc' over'] b have "list_all P gs'" by simp
  ultimately show ?case using a b by simp
qed

lemma ghostCollision_score:
  "sc \<le> fst (snd (snd (ghostCollision rnd now p g i sc over)))"
  by (simp add: ghostCollision_def Let_def)

lemma ghostCollisions_score:
  "sc \<le> fst (snd (snd (ghostCollisions rnd now p gs i sc over)))"
proof (induction gs arbitrary: i sc over)
  case Nil
  then show ?case by simp
next
  case (Cons g gs)
  obtain g' j sc' over' where a: "ghostCollision rnd now p g i sc over = (g', j, sc', over')"
    by (cases "ghostCollision rnd now p g i sc over") auto
  obtain gs' k sc'' over'' where
    b: "ghostCollisions rnd now p gs j sc' over' = (gs', k, sc'', over'')"
    by (cases "ghostCollisions rnd now p gs j sc' over'") auto
  from ghostCollision_score [of sc rnd now p g i over] a have "sc \<le> sc'" by simp
  moreover from Cons.IH [of sc' j over'] b have "sc' \<le> sc''" by simp
  ultimately show ?case using a b by simp
qed

lemma eatCherries_score:
  "snd (eatCherries p cs sc) = sc + int (length (filter (cherryEaten p) cs))"
  by (induction cs arbitrary: sc) (simp_all add: case_prod_beta)

lemma eatCherries_list:
  "fst (eatCherries p cs sc) = filter (\<lambda>c. \<not> cherryEaten p c) cs"
  by (induction cs arbitrary: sc) (simp_all add: case_prod_beta)

lemma apexCollision_ghosts:
  "apexCollision t1 t2 p apex ra gs = (apex', ra', gs') \<Longrightarrow>
   gs' = gs \<or> gs' = map (\<lambda>g. g\<lparr>vulnerableUntil := t2 + 10000\<rparr>) gs"
  by (auto simp: apexCollision_def split: option.splits if_splits)

lemma apexCollision_all:
  assumes "\<And>g v. P g \<Longrightarrow> P (g\<lparr>vulnerableUntil := v\<rparr>)"
    and "apexCollision t1 t2 p apex ra gs = (apex', ra', gs')" and "list_all P gs"
  shows "list_all P gs'"
  using apexCollision_ghosts [OF assms(2)] assms(1,3)
  by (auto simp: list_all_iff)

subsection \<open>The phases of a tick\<close>

lemma tick_running:
  assumes "tick rnd now t1 t2 s i = Some (s', j)" and "started s" and "\<not> gameOver s"
  obtains gs1 i1 cs1 sc1 cs2 i2 ap1 ra1 gs2 ap2 i3 gs3 sc2 over where
    "updateGhosts rnd now (movePacman (pac s)) (ghosts s) i = (gs1, i1)"
    "eatCherries (movePacman (pac s)) (cherries s) (score s) = (cs1, sc1)"
    "topUp rnd cs1 i1 = Some (cs2, i2)"
    "apexCollision t1 t2 (movePacman (pac s)) (apexRef s) (apexRespawnAt s) gs1 = (ap1, ra1, gs2)"
    "apexRespawn rnd now ap1 ra1 i2 = Some (ap2, i3)"
    "ghostCollisions rnd now (movePacman (pac s)) gs2 i3 sc1 False = (gs3, j, sc2, over)"
    "s' = s\<lparr>score := sc2, gameOver := over, pac := movePacman (pac s), ghosts := gs3,
            cherries := cs2, apexRef := ap2, apexRespawnAt := ra1\<rparr>"
  using assms
  by (auto simp: tick_def Let_def split: prod.splits option.splits)

lemma tick_idle: "\<not> (started s \<and> \<not> gameOver s) \<Longrightarrow> tick rnd now t1 t2 s i = Some (s, i)"
  by (auto simp: tick_def)

lemma tick_gameInv:
  assumes t: "tick rnd now t1 t2 s i = Some (s', j)" and inv: "gameInv s"
  shows "gameInv s'"
proof (cases "started s \<and> \<not> gameOver s")
  case False
  with t inv show ?thesis by (simp add: tick_idle)
next
  case True
  then have run: "started s" "\<not> gameOver s" by simp_all
  let ?p = "movePacman (pac s)"
  from inv have p: "pacClear (pac s)" "inFrame (pac s)" "pacSlow (pac s)"
    and g: "list_all ghostClear (ghosts s)" "list_all (\<lambda>g. ghostSpeed g = GHOST_SPEED) (ghosts s)"
    and sc: "0 \<le> score s"
    by (simp_all add: gameInv_def)
  from t run obtain gs1 i1 cs1 sc1 cs2 i2 ap1 ra1 gs2 ap2 i3 gs3 sc2 over where
    ug: "updateGhosts rnd now ?p (ghosts s) i = (gs1, i1)" and
    ec: "eatCherries ?p (cherries s) (score s) = (cs1, sc1)" and
    tu: "topUp rnd cs1 i1 = Some (cs2, i2)" and
    ac: "apexCollision t1 t2 ?p (apexRef s) (apexRespawnAt s) gs1 = (ap1, ra1, gs2)" and
    ar: "apexRespawn rnd now ap1 ra1 i2 = Some (ap2, i3)" and
    gc: "ghostCollisions rnd now ?p gs2 i3 sc1 False = (gs3, j, sc2, over)" and
    s': "s' = s\<lparr>score := sc2, gameOver := over, pac := ?p, ghosts := gs3,
            cherries := cs2, apexRef := ap2, apexRespawnAt := ra1\<rparr>"
    by (rule tick_running)
  have c1: "list_all ghostClear gs1"
    using updateGhosts_all [of ghostClear rnd now ?p "ghosts s" i, OF updateGhost_clear g(1)] ug
    by simp
  have v1: "list_all (\<lambda>g. ghostSpeed g = GHOST_SPEED) gs1"
    using updateGhosts_all [of "\<lambda>g. ghostSpeed g = GHOST_SPEED" rnd now ?p "ghosts s" i,
        OF updateGhost_speed g(2)] ug
    by simp
  have c2: "list_all ghostClear gs2"
    by (rule apexCollision_all [OF _ ac c1]) (simp add: ghostClear_def)
  have v2: "list_all (\<lambda>g. ghostSpeed g = GHOST_SPEED) gs2"
    by (rule apexCollision_all [OF _ ac v1]) (simp add: ghostSpeed_def)
  have c3: "list_all ghostClear gs3"
    using ghostCollisions_all [of ghostClear rnd now ?p gs2 i3 sc1 False,
        OF ghostCollision_clear c2] gc
    by simp
  have v3: "list_all (\<lambda>g. ghostSpeed g = GHOST_SPEED) gs3"
    using ghostCollisions_all [of "\<lambda>g. ghostSpeed g = GHOST_SPEED" rnd now ?p gs2 i3 sc1 False,
        OF ghostCollision_speed v2] gc
    by simp
  have "score s \<le> sc1" using eatCherries_score [of ?p "cherries s" "score s"] ec by simp
  moreover have "sc1 \<le> sc2" using ghostCollisions_score [of sc1 rnd now ?p gs2 i3 False] gc by simp
  ultimately have "0 \<le> sc2" using sc by simp
  with movePacman_inv [OF p] c3 v3 s' run show ?thesis
    by (simp add: gameInv_def)
qed

lemma startPacman_ok: "pacClear startPacman" "inFrame startPacman" "pacSlow startPacman"
  by (simp_all add: startPacman_def pacClear_def inFrame_def pacSlow_def collides_unfold maze_consts)

lemma spawnGhost_speed: "spawnGhost rnd i = Some (g, j) \<Longrightarrow> ghostSpeed g = GHOST_SPEED"
  by (auto simp: spawnGhost_def Let_def ghostSpeed_def hypot_polar GHOST_SPEED_def
      split: option.splits)

lemma spawnGhost_timers:
  "spawnGhost rnd i = Some (g, j) \<Longrightarrow> vulnerableUntil g = 0 \<and> eatenUntil g = 0"
  by (auto simp: spawnGhost_def Let_def split: option.splits)

lemma spawnGhostsN_all:
  assumes "\<And>g i j. spawnGhost rnd i = Some (g, j) \<Longrightarrow> P g"
  shows "spawnGhostsN rnd n i = Some (gs, j) \<Longrightarrow> list_all P gs \<and> length gs = n"
proof (induction n arbitrary: i gs j)
  case 0
  then show ?case by simp
next
  case (Suc n)
  from Suc.prems obtain g k gs' where
    a: "spawnGhost rnd i = Some (g, k)" and
    b: "spawnGhostsN rnd n k = Some (gs', j)" and c: "gs = g # gs'"
    by (auto split: option.splits)
  from assms [OF a] Suc.IH [OF b] c show ?case by simp
qed

lemma spawnCherries_length: "spawnCherries rnd n i = Some (cs, j) \<Longrightarrow> length cs = n"
  by (induction n arbitrary: i cs j) (auto split: option.splits)

lemma resetGame_gameInv: "resetGame rnd s i = Some (s', j) \<Longrightarrow> gameInv s'"
proof -
  assume a: "resetGame rnd s i = Some (s', j)"
  then obtain gs k where g: "spawnGhostsN rnd NUM_GHOSTS i = Some (gs, k)"
    and s': "pac s' = startPacman" "ghosts s' = gs" "score s' = 0"
    by (auto simp: resetGame_def spawnGhosts_def split: option.splits)
  from spawnGhostsN_all [of rnd ghostClear, OF spawnGhost_clear g]
    spawnGhostsN_all [of rnd "\<lambda>g. ghostSpeed g = GHOST_SPEED", OF spawnGhost_speed g]
    startPacman_ok s'
  show ?thesis by (simp add: gameInv_def)
qed

lemma initGame_gameInv: "initGame rnd i = Some (s, j) \<Longrightarrow> gameInv s"
proof -
  assume a: "initGame rnd i = Some (s, j)"
  then obtain gs k l where g: "spawnGhostsN rnd NUM_GHOSTS k = Some (gs, l)"
    and s': "pac s = startPacman" "ghosts s = gs" "score s = 0"
    by (auto simp: initGame_def spawnGhosts_def split: option.splits)
  from spawnGhostsN_all [of rnd ghostClear, OF spawnGhost_clear g]
    spawnGhostsN_all [of rnd "\<lambda>g. ghostSpeed g = GHOST_SPEED", OF spawnGhost_speed g]
    startPacman_ok s'
  show ?thesis by (simp add: gameInv_def)
qed

lemma steerPacman_ok:
  "p_x (steerPacman code p) = p_x p" "p_y (steerPacman code p) = p_y p"
  "pacSlow p \<Longrightarrow> pacSlow (steerPacman code p)"
  by (simp_all add: steerPacman_def pacSlow_def PAC_SPEED_def)

lemma gameInv_started: "gameInv s \<Longrightarrow> gameInv (s\<lparr>started := True\<rparr>)"
  by (simp add: gameInv_def)

lemma handleKey_gameInv:
  assumes "handleKey rnd code s i = Some (s', j)" and "gameInv s"
  shows "gameInv s'"
proof (cases "gameOver s")
  case True
  with assms(1) obtain s2 where "resetGame rnd s i = Some (s2, j)" "s' = s2\<lparr>started := True\<rparr>"
    by (auto simp: handleKey_def Let_def split: option.splits)
  with resetGame_gameInv [of rnd s i s2 j] show ?thesis by (simp add: gameInv_started)
next
  case False
  with assms show ?thesis
    by (cases "started s")
      (auto simp: handleKey_def Let_def gameInv_def pacClear_def inFrame_def steerPacman_ok)
qed

lemma handleClick_gameInv:
  assumes "handleClick rnd s i = Some (s', j)" and "gameInv s"
  shows "gameInv s'"
proof (cases "started s \<and> gameOver s")
  case True
  with assms(1) obtain s2 where "resetGame rnd s i = Some (s2, j)" "s' = s2\<lparr>started := True\<rparr>"
    by (auto simp: handleClick_def split: option.splits)
  with resetGame_gameInv [of rnd s i s2 j] show ?thesis by (simp add: gameInv_started)
next
  case False
  with assms show ?thesis
    by (auto simp: handleClick_def gameInv_def split: if_splits)
qed

lemma reachable_gameInv: "reachable s \<Longrightarrow> gameInv s"
proof (induction rule: reachable.induct)
  case (reach_init rnd i s j)
  then show ?case by (rule initGame_gameInv)
next
  case (reach_tick s rnd now t1 t2 i s' j)
  then show ?case using tick_gameInv by blast
next
  case (reach_key s rnd code i s' j)
  then show ?case using handleKey_gameInv by blast
next
  case (reach_click s rnd i s' j)
  then show ?case using handleClick_gameInv by blast
qed

subsection \<open>The example session, evaluated\<close>

lemma demo_rnd_apply: "demo_rnd n = 1 / 2"
  by (simp add: demo_rnd_def)

lemma demo_angle: "cos (demo_rnd n * pi * 2) = - 1" "sin (demo_rnd n * pi * 2) = 0"
  by (simp_all add: demo_rnd_def)

lemma demo_randomPos:
  "sz = 26 \<or> sz = 34 \<or> sz = 36 \<Longrightarrow>
   randomPos demo_rnd sz i = Some (((500 - sz) / 2, (500 - sz) / 2), i + 2)"
  by (subst randomPos.simps) (auto simp: demo_rnd_apply Let_def collides_unfold maze_consts)

lemma demo_spawnCherries:
  "spawnCherries demo_rnd 5 i =
     Some ([(237, 237), (237, 237), (237, 237), (237, 237), (237, 237)], i + 10)"
  by (simp add: eval_nat_numeral demo_randomPos CHERRY_SIZE_def)

lemma demo_spawnGhost: "spawnGhost demo_rnd i = Some (demo_ghost, i + 3)"
  by (simp add: spawnGhost_def demo_randomPos GHOST_SIZE_def GHOST_SPEED_def demo_ghost_def
      Let_def demo_angle)

lemma demo_spawnGhosts:
  "spawnGhosts demo_rnd i = Some ([demo_ghost, demo_ghost, demo_ghost], i + 9)"
  by (simp add: spawnGhosts_def NUM_GHOSTS_def eval_nat_numeral demo_spawnGhost)

lemma demo_initGame: "initGame demo_rnd 0 = Some (demo_init, 21)"
  by (simp add: initGame_def demo_spawnCherries demo_spawnGhosts spawnApex_def demo_randomPos
      APEX_SIZE_def demo_init_def startPacman_def width_def height_def)

lemma demo_handleKey: "handleKey demo_rnd ''ArrowRight'' demo_init 21 = Some (demo_running, 21)"
  by (simp add: handleKey_def demo_init_def demo_running_def steerPacman_def PAC_SPEED_def)

lemma demo_topUp:
  "topUp demo_rnd [] i =
     Some ([(237, 237), (237, 237), (237, 237), (237, 237), (237, 237)], i + 10)"
  by (simp add: topUp.simps demo_randomPos CHERRY_SIZE_def)

lemma demo_movePacman:
  "movePacman (pac demo_running) = \<lparr>p_x = 1266 / 5, p_y = 250, p_dx = 16 / 5, p_dy = 0\<rparr>"
  by (simp add: movePacman_def pacStep_def pacClamp_def demo_running_def Let_def
      collides_unfold maze_consts)

lemma demo_moveGhost: "moveGhost demo_ghost = demo_ghost\<lparr>g_x := 231\<rparr>"
  by (simp add: moveGhost_def bounceEdges_def demo_ghost_def Let_def collides_unfold maze_consts)

lemma demo_updateGhost:
  "updateGhost demo_rnd 1000 \<lparr>p_x = 1266 / 5, p_y = 250, p_dx = 16 / 5, p_dy = 0\<rparr> demo_ghost i =
     (demo_ghost\<lparr>g_x := 231, g_dx := cos (atan2 17 (111 / 5)) * 2,
        g_dy := sin (atan2 17 (111 / 5)) * 2\<rparr>, i)"
  by (simp add: updateGhost_def demo_moveGhost steerGhost_def Let_def hypot_less_iff maze_consts)
    (simp add: demo_ghost_def)

lemma demo_eatCherries:
  "eatCherries \<lparr>p_x = 1266 / 5, p_y = 250, p_dx = 16 / 5, p_dy = 0\<rparr>
     [(237, 237), (237, 237), (237, 237), (237, 237), (237, 237)] sc = ([], sc + 5)"
  by (simp add: cherryEaten_def hypot_less_iff maze_consts)

lemma demo_ghostCollision:
  "ghostCollision demo_rnd 1000 \<lparr>p_x = 1266 / 5, p_y = 250, p_dx = 16 / 5, p_dy = 0\<rparr>
     (demo_ghost\<lparr>g_x := 231, g_dx := vx, g_dy := vy, vulnerableUntil := 11000\<rparr>) i sc over =
     (demo_eaten, i + 1, sc + 10, over)"
  by (simp add: ghostCollision_def ghostContact_def demo_ghost_def demo_eaten_def Let_def
      hypot_less_iff maze_consts demo_angle)

lemma demo_tick: "tick demo_rnd 1000 1000 1000 demo_running 21 = Some (demo_after, 34)"
proof -
  have run: "started demo_running" "\<not> gameOver demo_running"
    "ghosts demo_running = [demo_ghost, demo_ghost, demo_ghost]"
    "cherries demo_running = [(237, 237), (237, 237), (237, 237), (237, 237), (237, 237)]"
    "apexRef demo_running = Some (232, 232)" "apexRespawnAt demo_running = 0"
    "score demo_running = 0"
    by (simp_all add: demo_running_def demo_init_def)
  have touched: "apexTouched \<lparr>p_x = 1266 / 5, p_y = 250, p_dx = 16 / 5, p_dy = 0\<rparr> (232, 232)"
    by (simp add: apexTouched_def hypot_less_iff maze_consts)
  show ?thesis
    unfolding tick_def
    by (simp add: Let_def run demo_movePacman demo_updateGhost demo_eatCherries demo_topUp
        apexCollision_def touched apexRespawn_def demo_ghostCollision del: eatCherries.simps)
      (simp add: demo_running_def demo_init_def demo_after_def)
qed

lemma demo_reachable: "reachable demo_running"
  using reach_key [OF reach_init [OF demo_initGame] demo_handleKey] .

lemma demo_running_flags: "started demo_running" "\<not> gameOver demo_running"
  by (simp_all add: demo_running_def demo_init_def)

subsection \<open>Rejection sampling\<close>

lemma randomPos_unfold:
  "randomPos rnd sz i =
     (if blocked rnd sz i 0 then randomPos rnd sz (i + 2) else Some (sample rnd sz i 0, i + 2))"
  by (subst randomPos.simps) (simp add: Let_def blocked_def sample_def)

lemma sample_shift:
  "sample rnd sz (i + 2) k = sample rnd sz i (Suc k)"
  "sample rnd sz (Suc (Suc i)) k = sample rnd sz i (Suc k)"
  by (simp_all add: sample_def)

lemma blocked_shift:
  "blocked rnd sz (i + 2) k = blocked rnd sz i (Suc k)"
  "blocked rnd sz (Suc (Suc i)) k = blocked rnd sz i (Suc k)"
  by (simp_all add: blocked_def sample_shift)

lemma randomPos_returns_first:
  "(\<forall>m<k. blocked rnd sz i m) \<Longrightarrow> \<not> blocked rnd sz i k \<Longrightarrow>
   randomPos rnd sz i = Some (sample rnd sz i k, i + 2 * k + 2)"
proof (induction k arbitrary: i)
  case 0
  then show ?case by (subst randomPos_unfold) simp
next
  case (Suc k)
  have "\<forall>m<k. blocked rnd sz (i + 2) m" using Suc.prems(1) by (simp add: blocked_shift)
  moreover have "\<not> blocked rnd sz (i + 2) k" using Suc.prems(2) by (simp add: blocked_shift)
  ultimately have "randomPos rnd sz (i + 2) = Some (sample rnd sz (i + 2) k, i + 2 + 2 * k + 2)"
    by (rule Suc.IH)
  moreover have "blocked rnd sz i 0" using Suc.prems(1) by simp
  ultimately show ?case
    by (subst randomPos_unfold) (simp add: sample_shift)
qed

lemma randomPos_Some_unblocked:
  "randomPos rnd sz i = Some y \<Longrightarrow> \<exists>k. \<not> blocked rnd sz i k"
proof (rule randomPos.raw_induct [where P = "\<lambda>rnd sz i y. \<exists>k. \<not> blocked rnd sz i k"])
  fix f rnd' sz' i' y'
  assume IH: "\<And>rnd sz i y. f rnd sz i = Some y \<Longrightarrow> \<exists>k. \<not> blocked rnd sz i k"
    and step: "(let x = rnd' i' * (width - sz'); y = rnd' (i' + 1) * (height - sz')
        in if collidesBarrier x y sz' then f rnd' sz' (i' + 2) else Some ((x, y), i' + 2)) = Some y'"
  show "\<exists>k. \<not> blocked rnd' sz' i' k"
  proof (cases "blocked rnd' sz' i' 0")
    case True
    with step have "f rnd' sz' (i' + 2) = Some y'"
      by (simp add: Let_def blocked_def sample_def)
    then obtain k where "\<not> blocked rnd' sz' (i' + 2) k" using IH by blast
    then have "\<not> blocked rnd' sz' i' (Suc k)" by (simp add: blocked_shift)
    then show ?thesis ..
  next
    case False
    then show ?thesis ..
  qed
qed

lemma randomPos_diverges: "(\<forall>k. blocked rnd sz i k) \<Longrightarrow> randomPos rnd sz i = None"
  using randomPos_Some_unblocked [of rnd sz i] by (cases "randomPos rnd sz i") auto

lemma zero_blocked: "0 < sz \<Longrightarrow> blocked zero_rnd sz i k"
  by (simp add: blocked_def sample_def zero_rnd_def collides_unfold)

lemma zero_randomPos: "0 < sz \<Longrightarrow> randomPos zero_rnd sz i = None"
  by (rule randomPos_diverges) (simp add: zero_blocked)

lemma late_randomPos:
  "randomPos (late_rnd k) CHERRY_SIZE 0 = Some ((237, 237), 2 * k + 2)"
proof -
  have "\<forall>m<k. blocked (late_rnd k) CHERRY_SIZE 0 m"
    by (simp add: blocked_def sample_def late_rnd_def collides_unfold maze_consts)
  moreover have "\<not> blocked (late_rnd k) CHERRY_SIZE 0 k"
    by (simp add: blocked_def sample_def late_rnd_def collides_unfold maze_consts)
  moreover have "sample (late_rnd k) CHERRY_SIZE 0 k = (237, 237)"
    by (simp add: sample_def late_rnd_def maze_consts)
  ultimately show ?thesis
    using randomPos_returns_first [of k "late_rnd k" CHERRY_SIZE 0] by simp
qed

subsection \<open>The scoring loop of the flight variant\<close>

lemma scorePipe_cases:
  "scorePipe p sc =
     (if \<not> scored p \<and> pipe_x p - pipeSpeed + pipeWidth < flappy_width / 4
      then (p\<lparr>pipe_x := pipe_x p - pipeSpeed, scored := True\<rparr>, sc + 1)
      else (p\<lparr>pipe_x := pipe_x p - pipeSpeed\<rparr>, sc))"
  by (simp add: scorePipe_def Let_def)


lemma scorePipes_pointwise:
  "scorePipes ps sc =
     (map (\<lambda>p. fst (scorePipe p 0)) ps, sc + sum_list (map (\<lambda>p. snd (scorePipe p 0)) ps))"
proof (induction ps arbitrary: sc)
  case Nil
  then show ?case by simp
next
  case (Cons p ps)
  have "scorePipe p sc = (fst (scorePipe p 0), sc + snd (scorePipe p 0))"
    by (simp add: scorePipe_cases)
  then show ?case by (simp add: Cons.IH)
qed

lemma scorePipe_passing:
  "scorePipe p sc =
     (if \<not> scored p \<and> passing p
      then (p\<lparr>pipe_x := pipe_x p - pipeSpeed, scored := True\<rparr>, sc + 1)
      else (p\<lparr>pipe_x := pipe_x p - pipeSpeed\<rparr>, sc))"
  by (simp add: scorePipe_cases passing_def)

lemma sum_scorePipe:
  "sum_list (map (\<lambda>p. snd (scorePipe p 0)) ps) = int (length (filter (\<lambda>p. \<not> scored p \<and> passing p) ps))"
  by (induction ps) (simp_all add: scorePipe_passing)

lemma flappy_tick_running:
  assumes "f_started s" and "\<not> f_gameOver s"
  shows "pipes (fst (flappy_tick rnd s i)) =
           filter (\<lambda>p. pipe_x p + pipeWidth > 0)
             (map (\<lambda>p. fst (scorePipe p 0))
               (pipes s @ (if frameCounter s mod 90 = 0
                  then [\<lparr>pipe_x = flappy_width,
                         gapY = rnd i * (flappy_height - gapHeight - 120) + 60,
                         scored = False\<rparr>]
                  else [])))"
    and "f_score (fst (flappy_tick rnd s i)) =
           f_score s + int (length (filter (\<lambda>p. \<not> scored p \<and> passing p) (pipes s)))"
  using assms
  by (simp_all add: flappy_tick_def Let_def scorePipes_pointwise sum_scorePipe)
    (simp_all add: passing_def flappy_consts)


subsection \<open>The collision loop\<close>

lemma ghostCollision_cases:
  "ghostCollision rnd now p g i sc over =
     (if capturable now p g
      then (g\<lparr>eatenUntil := now + 2000,
              g_x := width / 2 - GHOST_SIZE / 2,
              g_y := height / 2 - GHOST_SIZE / 2,
              g_dx := cos (rnd i * pi * 2) * GHOST_SPEED,
              g_dy := sin (rnd i * pi * 2) * GHOST_SPEED\<rparr>, i + 1, sc + 10, over)
      else (g, i, sc, over \<or> fatal now p g))"
  by (auto simp: ghostCollision_def capturable_def fatal_def isHidden_def isVulnerable_def Let_def)

lemma ghostCollisions_score_eq:
  "fst (snd (snd (ghostCollisions rnd now p gs i sc over))) =
     sc + 10 * int (length (filter (capturable now p) gs))"
  by (induction gs arbitrary: i sc over) (simp_all add: ghostCollision_cases case_prod_beta)

lemma capturable_not_fatal: "capturable now p g \<Longrightarrow> \<not> fatal now p g"
  by (simp add: capturable_def fatal_def)

lemma ghostCollisions_over:
  "snd (snd (snd (ghostCollisions rnd now p gs i sc over))) =
     (over \<or> list_ex (fatal now p) gs)"
  by (induction gs arbitrary: i sc over)
    (auto simp: ghostCollision_cases case_prod_beta capturable_not_fatal)

lemma ghostCollisions_length:
  "length (fst (ghostCollisions rnd now p gs i sc over)) = length gs"
  by (induction gs arbitrary: i sc over) (simp_all add: case_prod_beta)

lemma ghostCollision_outcome:
  assumes "unitDraws rnd"
  shows "(capturable now p g \<longrightarrow> captured now g (fst (ghostCollision rnd now p g i sc over))) \<and>
         (\<not> capturable now p g \<longrightarrow> fst (ghostCollision rnd now p g i sc over) = g)"
proof -
  from assms have "0 \<le> rnd i \<and> rnd i < 1" by (simp add: unitDraws_def)
  then show ?thesis
    by (auto simp: ghostCollision_cases captured_def)
qed

lemma ghostCollisions_outcome:
  assumes "unitDraws rnd"
  shows "list_all2 (\<lambda>g g'. if capturable now p g then captured now g g' else g' = g)
           gs (fst (ghostCollisions rnd now p gs i sc over))"
proof (induction gs arbitrary: i sc over)
  case Nil
  then show ?case by simp
next
  case (Cons g gs)
  from ghostCollision_outcome [OF assms, of now p g i sc over] Cons.IH
  show ?case by (simp add: case_prod_beta)
qed

lemma tick_score:
  assumes "tick rnd now t1 t2 s i = Some (s', j)" and "started s" and "\<not> gameOver s"
  shows "score s' = score s
           + int (length (filter (cherryEaten (movePacman (pac s))) (cherries s)))
           + 10 * int (length (filter (capturable now (movePacman (pac s)))
                                 (ghostsAtCollision rnd now t1 t2 s i)))"
    and "gameOver s' = list_ex (fatal now (movePacman (pac s))) (ghostsAtCollision rnd now t1 t2 s i)"
    and "list_all2 (\<lambda>g g'. if capturable now (movePacman (pac s)) g then captured now g g' else g' = g)
           (ghostsAtCollision rnd now t1 t2 s i) (ghosts s') \<or> \<not> unitDraws rnd"
proof -
  let ?p = "movePacman (pac s)"
  from assms obtain gs1 i1 cs1 sc1 cs2 i2 ap1 ra1 gs2 ap2 i3 gs3 sc2 over where
    ug: "updateGhosts rnd now ?p (ghosts s) i = (gs1, i1)" and
    ec: "eatCherries ?p (cherries s) (score s) = (cs1, sc1)" and
    tu: "topUp rnd cs1 i1 = Some (cs2, i2)" and
    ac: "apexCollision t1 t2 ?p (apexRef s) (apexRespawnAt s) gs1 = (ap1, ra1, gs2)" and
    ar: "apexRespawn rnd now ap1 ra1 i2 = Some (ap2, i3)" and
    gc: "ghostCollisions rnd now ?p gs2 i3 sc1 False = (gs3, j, sc2, over)" and
    s': "s' = s\<lparr>score := sc2, gameOver := over, pac := ?p, ghosts := gs3,
            cherries := cs2, apexRef := ap2, apexRespawnAt := ra1\<rparr>"
    by (rule tick_running)
  have g: "ghostsAtCollision rnd now t1 t2 s i = gs2"
    by (simp add: ghostsAtCollision_def ug ac)
  have "sc1 = score s + int (length (filter (cherryEaten ?p) (cherries s)))"
    using eatCherries_score [of ?p "cherries s" "score s"] ec by simp
  moreover have "sc2 = sc1 + 10 * int (length (filter (capturable now ?p) gs2))"
    using ghostCollisions_score_eq [of rnd now ?p gs2 i3 sc1 False] gc by simp
  ultimately show "score s' = score s
           + int (length (filter (cherryEaten ?p) (cherries s)))
           + 10 * int (length (filter (capturable now ?p) (ghostsAtCollision rnd now t1 t2 s i)))"
    using s' g by simp
  show "gameOver s' = list_ex (fatal now ?p) (ghostsAtCollision rnd now t1 t2 s i)"
    using ghostCollisions_over [of rnd now ?p gs2 i3 sc1 False] gc s' g by simp
  show "list_all2 (\<lambda>g g'. if capturable now ?p g then captured now g g' else g' = g)
           (ghostsAtCollision rnd now t1 t2 s i) (ghosts s') \<or> \<not> unitDraws rnd"
  proof (cases "unitDraws rnd")
    case True
    from ghostCollisions_outcome [OF True, of now ?p gs2 i3 sc1 False] gc
    have "list_all2 (\<lambda>g g'. if capturable now ?p g then captured now g g' else g' = g) gs2 gs3"
      by simp
    with s' g show ?thesis by simp
  next
    case False
    then show ?thesis by simp
  qed
qed

subsection \<open>The score under input\<close>

lemma resetGame_score: "resetGame rnd s i = Some (s', j) \<Longrightarrow> score s' = 0"
  by (auto simp: resetGame_def split: option.splits)

lemma handleKey_score:
  "handleKey rnd code s i = Some (s', j) \<Longrightarrow> score s' = (if gameOver s then 0 else score s)"
  by (auto simp: handleKey_def Let_def resetGame_def split: option.splits if_splits)

lemma handleClick_score:
  "handleClick rnd s i = Some (s', j) \<Longrightarrow>
   score s' = (if started s \<and> gameOver s then 0 else score s)"
  by (auto simp: handleClick_def resetGame_def split: option.splits if_splits)

lemma flap_score: "f_score (flap s) = (if f_gameOver s then 0 else f_score s)"
  by (simp add: flap_def flappy_resetGame_def Let_def)

lemma flappy_tick_idle: "\<not> (f_started s \<and> \<not> f_gameOver s) \<Longrightarrow> flappy_tick rnd s i = (s, i)"
  by (auto simp: flappy_tick_def)

lemma flappy_tick_score_mono: "f_score s \<le> f_score (fst (flappy_tick rnd s i))"
proof (cases "f_started s \<and> \<not> f_gameOver s")
  case True
  then show ?thesis using flappy_tick_running(2) [of s rnd i] by simp
next
  case False
  then show ?thesis by (simp add: flappy_tick_idle)
qed

lemma flappy_reachable_score: "flappy_reachable s \<Longrightarrow> 0 \<le> f_score s"
proof (induction rule: flappy_reachable.induct)
  case freach_init
  then show ?case by (simp add: flappy_init_def)
next
  case (freach_tick s rnd i)
  then show ?case using flappy_tick_score_mono [of s rnd i] by simp
next
  case (freach_key s code)
  then show ?case by (simp add: flappy_handleKey_def flap_score)
next
  case (freach_click s)
  then show ?case by (simp add: flap_score)
qed

subsection \<open>The example session, continued\<close>

lemma demo_after_fields:
  "started demo_after" "\<not> gameOver demo_after"
  "ghosts demo_after = [demo_eaten, demo_eaten, demo_eaten]"
  "cherries demo_after = [(237, 237), (237, 237), (237, 237), (237, 237), (237, 237)]"
  "apexRef demo_after = None" "apexRespawnAt demo_after = 16000"
  "score demo_after = 35"
  "pac demo_after = \<lparr>p_x = 1266 / 5, p_y = 250, p_dx = 16 / 5, p_dy = 0\<rparr>"
  by (simp_all add: demo_after_def)

lemma demo_movePacman2:
  "movePacman \<lparr>p_x = 1266 / 5, p_y = 250, p_dx = 16 / 5, p_dy = 0\<rparr> =
     \<lparr>p_x = 1282 / 5, p_y = 250, p_dx = 16 / 5, p_dy = 0\<rparr>"
  by (simp add: movePacman_def pacStep_def pacClamp_def Let_def collides_unfold maze_consts)

lemma demo_eatCherries2:
  "eatCherries \<lparr>p_x = 1282 / 5, p_y = 250, p_dx = 16 / 5, p_dy = 0\<rparr>
     [(237, 237), (237, 237), (237, 237), (237, 237), (237, 237)] sc = ([], sc + 5)"
  by (simp add: cherryEaten_def hypot_less_iff maze_consts)


lemma demo_tick_hidden:
  "tick demo_rnd 1016 1016 1016 demo_after 34 = Some (demo_hidden_tick, 44)"
proof -
  have ug: "updateGhost demo_rnd 1016 p demo_eaten i = (demo_eaten, i)" for p i
    by (simp add: updateGhost_def demo_eaten_def)
  have gc: "ghostCollision demo_rnd 1016 p demo_eaten i sc over = (demo_eaten, i, sc, over)"
    for p i sc over
    by (simp add: ghostCollision_def demo_eaten_def)
  show ?thesis
    unfolding tick_def
    by (simp add: Let_def demo_after_fields demo_movePacman2 ug demo_eatCherries2 demo_topUp
        apexCollision_def apexRespawn_def gc del: eatCherries.simps)
      (simp add: demo_after_def demo_hidden_tick_def)
qed

lemma demo_tick_fatal:
  "tick demo_rnd 12000 12000 12000 demo_after 34 = Some (demo_ended, 44)"
proof -
  let ?p = "\<lparr>p_x = 1282 / 5, p_y = 250, p_dx = 16 / 5, p_dy = 0\<rparr>"
  have mg: "moveGhost demo_eaten = demo_eaten\<lparr>g_x := 231\<rparr>"
    by (simp add: moveGhost_def bounceEdges_def demo_eaten_def Let_def collides_unfold maze_consts)
  have ug: "updateGhost demo_rnd 12000 ?p demo_eaten i = (demo_chaser, i)" for i
    by (simp add: updateGhost_def mg steerGhost_def Let_def hypot_less_iff maze_consts)
      (simp add: demo_eaten_def demo_chaser_def)
  have gc: "ghostCollision demo_rnd 12000 ?p demo_chaser i sc over = (demo_chaser, i, sc, True)"
    for i sc over
    by (simp add: ghostCollision_def ghostContact_def demo_chaser_def hypot_less_iff maze_consts)
  show ?thesis
    unfolding tick_def
    by (simp add: Let_def demo_after_fields demo_movePacman2 ug demo_eatCherries2 demo_topUp
        apexCollision_def apexRespawn_def gc del: eatCherries.simps)
      (simp add: demo_after_def demo_ended_def)
qed

lemma demo_restart:
  "handleKey demo_rnd ''KeyW'' demo_ended 44 = Some (demo_restarted, 63)"
  by (simp add: handleKey_def resetGame_def demo_spawnGhosts demo_spawnCherries Let_def)
    (simp add: demo_ended_def demo_restarted_def startPacman_def maze_consts)

lemma demo_after_reachable: "reachable demo_after"
  using reach_tick [OF demo_reachable demo_tick] .

lemma demo_ended_reachable: "reachable demo_ended"
  using reach_tick [OF demo_after_reachable demo_tick_fatal] .

subsection \<open>Aiming with \<open>atan2\<close>\<close>

lemma hypot_pos: "x \<noteq> 0 \<or> y \<noteq> 0 \<Longrightarrow> 0 < hypot x y"
proof -
  assume "x \<noteq> 0 \<or> y \<noteq> 0"
  then have "0 < x * x + y * y"
    by (metis add_pos_nonneg add_nonneg_pos not_real_square_gt_zero zero_le_square)
  then show ?thesis by (simp add: hypot_def)
qed

lemma sqrt_ratio:
  assumes "x \<noteq> 0"
  shows "sqrt (1 + (y / x)\<^sup>2) = hypot x y / \<bar>x\<bar>"
proof -
  have "1 + (y / x)\<^sup>2 = (x * x + y * y) / (x * x)"
    using assms by (simp add: power2_eq_square field_simps)
  then have "sqrt (1 + (y / x)\<^sup>2) = sqrt (x * x + y * y) / sqrt (x * x)"
    by (simp add: real_sqrt_divide)
  then show ?thesis by (simp add: hypot_def)
qed

lemma cos_sin_arctan_ratio:
  assumes "x \<noteq> 0"
  shows "cos (arctan (y / x)) = \<bar>x\<bar> / hypot x y"
    and "sin (arctan (y / x)) = (y / x) * \<bar>x\<bar> / hypot x y"
  using assms by (simp_all add: cos_arctan sin_arctan sqrt_ratio)

lemma cos_atan2: "x \<noteq> 0 \<or> y \<noteq> 0 \<Longrightarrow> cos (atan2 y x) = x / hypot x y"
proof -
  assume nz: "x \<noteq> 0 \<or> y \<noteq> 0"
  consider "0 < x" | "x < 0" | "x = 0" "y \<noteq> 0" using nz by fastforce
  then show ?thesis
  proof cases
    case 1
    then show ?thesis by (simp add: atan2_def cos_sin_arctan_ratio)
  next
    case 2
    then show ?thesis by (simp add: atan2_def cos_sin_arctan_ratio)
  next
    case 3
    then show ?thesis by (simp add: atan2_def)
  qed
qed

lemma sin_atan2: "x \<noteq> 0 \<or> y \<noteq> 0 \<Longrightarrow> sin (atan2 y x) = y / hypot x y"
proof -
  assume nz: "x \<noteq> 0 \<or> y \<noteq> 0"
  consider "0 < x" | "x < 0" | "x = 0" "0 < y" | "x = 0" "y < 0" using nz by fastforce
  then show ?thesis
  proof cases
    case 1
    then show ?thesis by (simp add: atan2_def cos_sin_arctan_ratio)
  next
    case 2
    then show ?thesis by (simp add: atan2_def cos_sin_arctan_ratio)
  next
    case 3
    then show ?thesis by (simp add: atan2_def hypot_def)
  next
    case 4
    then show ?thesis by (simp add: atan2_def hypot_def)
  qed
qed

lemma steerGhost_cases:
  "steerGhost rnd now p g i =
     (if chasing now p g
      then (g\<lparr>g_dx := cos (atan2 (p_y p - g_y g) (p_x p - g_x g)) * GHOST_SPEED,
              g_dy := sin (atan2 (p_y p - g_y g) (p_x p - g_x g)) * GHOST_SPEED\<rparr>, i)
      else if rnd i < 2 / 100
      then (g\<lparr>g_dx := cos (rnd (i + 1) * pi * 2) * GHOST_SPEED,
              g_dy := sin (rnd (i + 1) * pi * 2) * GHOST_SPEED\<rparr>, i + 2)
      else (g, i + 1))"
  by (simp add: steerGhost_def chasing_def isVulnerable_def Let_def not_less)

lemma steerGhost_aim:
  assumes "chasing now p g" and "p_x p \<noteq> g_x g \<or> p_y p \<noteq> g_y g"
  shows "g_dx (fst (steerGhost rnd now p g i)) =
           GHOST_SPEED * (p_x p - g_x g) / hypot (p_x p - g_x g) (p_y p - g_y g)"
    and "g_dy (fst (steerGhost rnd now p g i)) =
           GHOST_SPEED * (p_y p - g_y g) / hypot (p_x p - g_x g) (p_y p - g_y g)"
proof -
  from assms(2) have nz: "p_x p - g_x g \<noteq> 0 \<or> p_y p - g_y g \<noteq> 0" by simp
  show "g_dx (fst (steerGhost rnd now p g i)) =
           GHOST_SPEED * (p_x p - g_x g) / hypot (p_x p - g_x g) (p_y p - g_y g)"
    using assms(1) by (simp add: steerGhost_cases cos_atan2 [OF nz])
  show "g_dy (fst (steerGhost rnd now p g i)) =
           GHOST_SPEED * (p_y p - g_y g) / hypot (p_x p - g_x g) (p_y p - g_y g)"
    using assms(1) by (simp add: steerGhost_cases sin_atan2 [OF nz])
qed

lemma steerGhost_speed_set:
  "chasing now p g \<or> rnd i < 2 / 100 \<Longrightarrow> ghostSpeed (fst (steerGhost rnd now p g i)) = GHOST_SPEED"
  by (auto simp: steerGhost_cases ghostSpeed_def hypot_polar GHOST_SPEED_def)

subsection \<open>The power-item handler inside a tick\<close>




lemma demo_tick_skewed: "tick demo_rnd 1000 1003 1007 demo_running 21 = Some (demo_skewed, 34)"
proof -
  let ?p = "\<lparr>p_x = 1266 / 5, p_y = 250, p_dx = 16 / 5, p_dy = 0\<rparr>"
  have run: "started demo_running" "\<not> gameOver demo_running"
    "ghosts demo_running = [demo_ghost, demo_ghost, demo_ghost]"
    "cherries demo_running = [(237, 237), (237, 237), (237, 237), (237, 237), (237, 237)]"
    "apexRef demo_running = Some (232, 232)" "apexRespawnAt demo_running = 0"
    "score demo_running = 0"
    by (simp_all add: demo_running_def demo_init_def)
  have touched: "apexTouched ?p (232, 232)"
    by (simp add: apexTouched_def hypot_less_iff maze_consts)
  have gc: "ghostCollision demo_rnd 1000 ?p
      (demo_ghost\<lparr>g_x := 231, g_dx := vx, g_dy := vy, vulnerableUntil := 11007\<rparr>) i sc over =
      (demo_eaten\<lparr>vulnerableUntil := 11007\<rparr>, i + 1, sc + 10, over)" for vx vy i sc over
    by (simp add: ghostCollision_def ghostContact_def demo_ghost_def demo_eaten_def Let_def
        hypot_less_iff maze_consts demo_angle)
  show ?thesis
    unfolding tick_def
    by (simp add: Let_def run demo_movePacman demo_updateGhost demo_eatCherries demo_topUp
        apexCollision_def touched apexRespawn_def gc del: eatCherries.simps)
      (simp add: demo_running_def demo_init_def demo_after_def demo_skewed_def)
qed

subsection \<open>The second example session, evaluated\<close>

lemma half_randomPos:
  assumes "rnd i = 1 / 2" and "rnd (Suc i) = 1 / 2" and "sz = 26 \<or> sz = 36"
  shows "randomPos rnd sz i = Some (((500 - sz) / 2, (500 - sz) / 2), i + 2)"
proof -
  have "\<not> collidesBarrier ((500 - sz) / 2) ((500 - sz) / 2) sz"
    using assms(3) by (auto simp: collides_unfold)
  then show ?thesis
    by (subst randomPos.simps) (simp add: assms(1,2) Let_def maze_consts)
qed

lemma wall_rnd_values:
  "wall_rnd 0 = 1 / 2" "wall_rnd 1 = 1 / 2" "wall_rnd 2 = 1 / 2" "wall_rnd 3 = 1 / 2"
  "wall_rnd 4 = 1 / 2" "wall_rnd 5 = 1 / 2" "wall_rnd 6 = 1 / 2" "wall_rnd 7 = 1 / 2"
  "wall_rnd 8 = 1 / 2" "wall_rnd 9 = 1 / 2"
  "wall_rnd 10 = 15 / 466" "wall_rnd 11 = 100 / 233" "wall_rnd 12 = 0"
  "wall_rnd 13 = 15 / 466" "wall_rnd 14 = 100 / 233" "wall_rnd 15 = 0"
  "wall_rnd 16 = 15 / 466" "wall_rnd 17 = 100 / 233" "wall_rnd 18 = 0"
  by (simp_all add: wall_rnd_def)

lemma wall_rnd_late: "19 \<le> n \<Longrightarrow> wall_rnd n = 1 / 2"
  by (simp add: wall_rnd_def)


lemma wall_cherry:
  "i \<in> {0, 2, 4, 6, 8} \<or> 19 \<le> i \<Longrightarrow>
   randomPos wall_rnd CHERRY_SIZE i = Some ((237, 237), i + 2)"
proof -
  assume "i \<in> {0, 2, 4, 6, 8} \<or> 19 \<le> i"
  then have "wall_rnd i = 1 / 2" "wall_rnd (Suc i) = 1 / 2"
    by (auto simp: wall_rnd_def)
  from half_randomPos [OF this, of CHERRY_SIZE] show ?thesis
    by (simp add: CHERRY_SIZE_def)
qed

lemma wall_spawnCherries:
  "spawnCherries wall_rnd 5 0 =
     Some ([(237, 237), (237, 237), (237, 237), (237, 237), (237, 237)], 10)"
proof -
  have five: "(5::nat) = Suc (Suc (Suc (Suc (Suc 0))))" by simp
  have c: "randomPos wall_rnd CHERRY_SIZE 0 = Some ((237, 237), 2)"
    "randomPos wall_rnd CHERRY_SIZE 2 = Some ((237, 237), 4)"
    "randomPos wall_rnd CHERRY_SIZE 4 = Some ((237, 237), 6)"
    "randomPos wall_rnd CHERRY_SIZE 6 = Some ((237, 237), 8)"
    "randomPos wall_rnd CHERRY_SIZE 8 = Some ((237, 237), 10)"
    using wall_cherry [of 0] wall_cherry [of 2] wall_cherry [of 4] wall_cherry [of 6]
      wall_cherry [of 8]
    by simp_all
  show ?thesis
    unfolding five by (simp add: c)
qed


lemma wall_spawnGhost:
  assumes "wall_rnd i = 15 / 466" and "wall_rnd (Suc i) = 100 / 233"
    and "wall_rnd (Suc (Suc i)) = 0"
  shows "spawnGhost wall_rnd i = Some (wall_ghost, i + 3)"
proof -
  have "randomPos wall_rnd GHOST_SIZE i = Some ((15, 200), i + 2)"
    by (subst randomPos.simps) (simp add: assms Let_def collides_unfold maze_consts)
  then show ?thesis
    by (simp add: spawnGhost_def Let_def assms wall_ghost_def GHOST_SPEED_def)
qed

lemma wall_spawnGhosts:
  "spawnGhosts wall_rnd 10 = Some ([wall_ghost, wall_ghost, wall_ghost], 19)"
proof -
  have three: "(3::nat) = Suc (Suc (Suc 0))" by simp
  have g: "spawnGhost wall_rnd 10 = Some (wall_ghost, 13)"
    "spawnGhost wall_rnd 13 = Some (wall_ghost, 16)"
    "spawnGhost wall_rnd 16 = Some (wall_ghost, 19)"
    using wall_spawnGhost [of 10] wall_spawnGhost [of 13] wall_spawnGhost [of 16]
    by (simp_all add: wall_rnd_def)
  show ?thesis
    unfolding spawnGhosts_def NUM_GHOSTS_def three by (simp add: g)
qed

lemma wall_spawnApex: "spawnApex wall_rnd 19 = Some ((232, 232), 21)"
proof -
  have "wall_rnd 19 = 1 / 2" "wall_rnd (Suc 19) = 1 / 2" by (simp_all add: wall_rnd_def)
  from half_randomPos [OF this, of APEX_SIZE] show ?thesis
    by (simp add: spawnApex_def APEX_SIZE_def)
qed

lemma wall_initGame: "initGame wall_rnd 0 = Some (wall_init, 21)"
  by (simp add: initGame_def wall_spawnCherries wall_spawnGhosts wall_spawnApex
      wall_init_def startPacman_def width_def height_def)

lemma wall_handleKey: "handleKey wall_rnd ''Enter'' wall_init 21 = Some (wall_running, 21)"
  by (simp add: handleKey_def wall_init_def wall_running_def steerPacman_def)

lemma wall_reachable: "reachable wall_running"
  using reach_key [OF reach_init [OF wall_initGame] wall_handleKey] .


lemma wall_topUp:
  "topUp wall_rnd [] 24 =
     Some ([(237, 237), (237, 237), (237, 237), (237, 237), (237, 237)], 34)"
proof -
  have c: "randomPos wall_rnd CHERRY_SIZE 24 = Some ((237, 237), 26)"
    "randomPos wall_rnd CHERRY_SIZE 26 = Some ((237, 237), 28)"
    "randomPos wall_rnd CHERRY_SIZE 28 = Some ((237, 237), 30)"
    "randomPos wall_rnd CHERRY_SIZE 30 = Some ((237, 237), 32)"
    "randomPos wall_rnd CHERRY_SIZE 32 = Some ((237, 237), 34)"
    using wall_cherry [of 24] wall_cherry [of 26] wall_cherry [of 28] wall_cherry [of 30]
      wall_cherry [of 32]
    by simp_all
  show ?thesis
    by (simp add: topUp.simps c)
qed

lemma wall_moveGhost: "moveGhost wall_ghost = wall_ghost\<lparr>g_dx := - 2\<rparr>"
  by (simp add: moveGhost_def bounceEdges_def wall_ghost_def Let_def collides_unfold maze_consts)

lemma wall_updateGhost:
  "19 \<le> i \<Longrightarrow>
   updateGhost wall_rnd 1000 \<lparr>p_x = 250, p_y = 250, p_dx = 0, p_dy = 0\<rparr> wall_ghost i =
     (wall_ghost\<lparr>g_dx := - 2\<rparr>, i + 1)"
  by (simp add: updateGhost_def wall_moveGhost steerGhost_def Let_def hypot_less_iff
      wall_rnd_late maze_consts)
    (simp add: wall_ghost_def)

lemma wall_movePacman:
  "movePacman \<lparr>p_x = 250, p_y = 250, p_dx = 0, p_dy = 0\<rparr> =
     \<lparr>p_x = 250, p_y = 250, p_dx = 0, p_dy = 0\<rparr>"
  by (simp add: movePacman_def pacStep_def pacClamp_def Let_def collides_unfold maze_consts)

lemma wall_eatCherries:
  "eatCherries \<lparr>p_x = 250, p_y = 250, p_dx = 0, p_dy = 0\<rparr>
     [(237, 237), (237, 237), (237, 237), (237, 237), (237, 237)] sc = ([], sc + 5)"
  by (simp add: cherryEaten_def hypot_less_iff maze_consts)

lemma wall_running_fields:
  "started wall_running" "\<not> gameOver wall_running"
  "ghosts wall_running = [wall_ghost, wall_ghost, wall_ghost]"
  "cherries wall_running = [(237, 237), (237, 237), (237, 237), (237, 237), (237, 237)]"
  "apexRef wall_running = Some (232, 232)" "apexRespawnAt wall_running = 0"
  "score wall_running = 0"
  "pac wall_running = \<lparr>p_x = 250, p_y = 250, p_dx = 0, p_dy = 0\<rparr>"
  by (simp_all add: wall_running_def wall_init_def)

lemma wall_updateGhosts:
  "updateGhosts wall_rnd 1000 \<lparr>p_x = 250, p_y = 250, p_dx = 0, p_dy = 0\<rparr>
     [wall_ghost, wall_ghost, wall_ghost] 21 =
     ([wall_ghost\<lparr>g_dx := - 2\<rparr>, wall_ghost\<lparr>g_dx := - 2\<rparr>, wall_ghost\<lparr>g_dx := - 2\<rparr>], 24)"
  using wall_updateGhost [of 21] wall_updateGhost [of 22] wall_updateGhost [of 23]
  by simp

lemma wall_ghostsAtCollision:
  "ghostsAtCollision wall_rnd 1000 1000 1000 wall_running 21 =
     [wall_turned, wall_turned, wall_turned]"
proof -
  have touched: "apexTouched \<lparr>p_x = 250, p_y = 250, p_dx = 0, p_dy = 0\<rparr> (232, 232)"
    by (simp add: apexTouched_def hypot_less_iff maze_consts)
  show ?thesis
    by (simp add: ghostsAtCollision_def wall_running_fields wall_movePacman wall_updateGhosts
        apexCollision_def touched del: updateGhosts.simps)
      (simp add: wall_ghost_def wall_turned_def)
qed

lemma wall_tick: "tick wall_rnd 1000 1000 1000 wall_running 21 = Some (wall_after, 34)"
proof -
  let ?p = "\<lparr>p_x = 250, p_y = 250, p_dx = 0, p_dy = 0\<rparr>"
  have touched: "apexTouched ?p (232, 232)"
    by (simp add: apexTouched_def hypot_less_iff maze_consts)
  have gc: "ghostCollision wall_rnd 1000 ?p (wall_ghost\<lparr>g_dx := - 2, vulnerableUntil := 11000\<rparr>)
      i sc over = (wall_turned, i, sc, over)" for i sc over
    by (simp add: ghostCollision_def ghostContact_def wall_ghost_def wall_turned_def
        hypot_less_iff maze_consts)
  show ?thesis
    unfolding tick_def
    by (simp add: Let_def wall_running_fields wall_movePacman wall_updateGhosts wall_eatCherries
        wall_topUp apexCollision_def touched apexRespawn_def gc
        del: eatCherries.simps updateGhosts.simps)
      (simp add: wall_running_def wall_init_def wall_after_def)
qed

subsection \<open>The movement loop inside a tick, pursuer by pursuer\<close>

lemma steerIndex_0 [simp]: "steerIndex rnd now p gs i 0 = i"
  by (simp add: steerIndex_def)

lemma steerIndex_Suc:
  "steerIndex rnd now p (g # gs) i (Suc k) =
     steerIndex rnd now p gs (snd (updateGhost rnd now p g i)) k"
  by (simp add: steerIndex_def case_prod_beta)

lemma updateGhosts_pointwise:
  "k < length gs \<Longrightarrow>
   fst (updateGhosts rnd now p gs i) ! k =
     fst (updateGhost rnd now p (gs ! k) (steerIndex rnd now p gs i k))"
proof (induction gs arbitrary: i k)
  case Nil
  then show ?case by simp
next
  case (Cons g gs)
  show ?case
  proof (cases k)
    case 0
    then show ?thesis by (simp add: case_prod_beta)
  next
    case (Suc m)
    with Cons.prems have "m < length gs" by simp
    from Cons.IH [OF this, of "snd (updateGhost rnd now p g i)"] Suc
    show ?thesis by (simp add: case_prod_beta steerIndex_Suc)
  qed
qed

lemma apexCollision_pointwise:
  assumes "apexCollision t1 t2 p apex ra gs = (apex', ra', gs')" and "k < length gs"
  shows "length gs' = length gs" and "sameMotion (gs' ! k) (gs ! k)"
    and "vulnerableUntil (gs' ! k) = vulnerableUntil (gs ! k) \<or>
         vulnerableUntil (gs' ! k) = t2 + 10000"
  using apexCollision_ghosts [OF assms(1)] assms(2)
  by (auto simp: sameMotion_def)

lemma ghostCollisions_kept:
  "k < length gs \<Longrightarrow> \<not> capturable now p (gs ! k) \<Longrightarrow>
   fst (ghostCollisions rnd now p gs i sc over) ! k = gs ! k"
proof (induction gs arbitrary: i sc over k)
  case Nil
  then show ?case by simp
next
  case (Cons g gs)
  show ?case
  proof (cases k)
    case 0
    with Cons.prems show ?thesis by (simp add: case_prod_beta ghostCollision_cases)
  next
    case (Suc m)
    with Cons.prems have "m < length gs" "\<not> capturable now p (gs ! m)" by simp_all
    from Cons.IH [OF this] Suc show ?thesis by (simp add: case_prod_beta)
  qed
qed

lemma sameMotion_refl [simp]: "sameMotion g g"
  by (simp add: sameMotion_def)

lemma tick_ghost_motion:
  assumes t: "tick rnd now t1 t2 s i = Some (s', j)" and run: "started s" "\<not> gameOver s"
    and k: "k < length (ghosts s)"
  shows "length (ghostsAtCollision rnd now t1 t2 s i) = length (ghosts s)"
    and "length (ghosts s') = length (ghosts s)"
    and "sameMotion (ghostsAtCollision rnd now t1 t2 s i ! k)
           (fst (updateGhost rnd now (movePacman (pac s)) (ghosts s ! k)
                   (steerIndex rnd now (movePacman (pac s)) (ghosts s) i k)))"
    and "\<not> capturable now (movePacman (pac s)) (ghostsAtCollision rnd now t1 t2 s i ! k) \<Longrightarrow>
         ghosts s' ! k = ghostsAtCollision rnd now t1 t2 s i ! k"
proof -
  let ?p = "movePacman (pac s)"
  from t run obtain gs1 i1 cs1 sc1 cs2 i2 ap1 ra1 gs2 ap2 i3 gs3 sc2 over where
    ug: "updateGhosts rnd now ?p (ghosts s) i = (gs1, i1)" and
    ec: "eatCherries ?p (cherries s) (score s) = (cs1, sc1)" and
    tu: "topUp rnd cs1 i1 = Some (cs2, i2)" and
    ac: "apexCollision t1 t2 ?p (apexRef s) (apexRespawnAt s) gs1 = (ap1, ra1, gs2)" and
    ar: "apexRespawn rnd now ap1 ra1 i2 = Some (ap2, i3)" and
    gc: "ghostCollisions rnd now ?p gs2 i3 sc1 False = (gs3, j, sc2, over)" and
    s': "s' = s\<lparr>score := sc2, gameOver := over, pac := ?p, ghosts := gs3,
            cherries := cs2, apexRef := ap2, apexRespawnAt := ra1\<rparr>"
    by (rule tick_running)
  have g: "ghostsAtCollision rnd now t1 t2 s i = gs2"
    by (simp add: ghostsAtCollision_def ug ac)
  have l1: "length gs1 = length (ghosts s)"
    using updateGhosts_length [of rnd now ?p "ghosts s" i] ug by simp
  with k have k1: "k < length gs1" by simp
  note ap = apexCollision_pointwise [OF ac k1]
  from ap(1) l1 g show "length (ghostsAtCollision rnd now t1 t2 s i) = length (ghosts s)"
    by simp
  from ghostCollisions_length [of rnd now ?p gs2 i3 sc1 False] gc ap(1) l1 s'
  show "length (ghosts s') = length (ghosts s)" by simp
  have "gs1 ! k = fst (updateGhost rnd now ?p (ghosts s ! k) (steerIndex rnd now ?p (ghosts s) i k))"
    using updateGhosts_pointwise [OF k, of rnd now ?p i] ug by simp
  with ap(2) g show "sameMotion (ghostsAtCollision rnd now t1 t2 s i ! k)
           (fst (updateGhost rnd now ?p (ghosts s ! k) (steerIndex rnd now ?p (ghosts s) i k)))"
    by simp
  assume "\<not> capturable now ?p (ghostsAtCollision rnd now t1 t2 s i ! k)"
  then have "\<not> capturable now ?p (gs2 ! k)" using g by simp
  moreover have "k < length gs2" using ap(1) k1 by simp
  ultimately have "fst (ghostCollisions rnd now ?p gs2 i3 sc1 False) ! k = gs2 ! k"
    by (intro ghostCollisions_kept)
  with gc s' g show "ghosts s' ! k = ghostsAtCollision rnd now t1 t2 s i ! k" by simp
qed

lemma moveGhost_velocity:
  "(g_dx (moveGhost g) = g_dx g \<or> g_dx (moveGhost g) = - g_dx g) \<and>
   (g_dy (moveGhost g) = g_dy g \<or> g_dy (moveGhost g) = - g_dy g)"
  by (simp add: moveGhost_def bounceEdges_def Let_def)

lemma moveGhost_revert:
  "collidesBarrier (g_x (bounceEdges g)) (g_y (bounceEdges g)) GHOST_SIZE \<Longrightarrow>
   g_x (moveGhost g) = g_x g \<and> g_y (moveGhost g) = g_y g \<and>
   g_dx (moveGhost g) = - g_dx (bounceEdges g) \<and> g_dy (moveGhost g) = - g_dy (bounceEdges g)"
  by (simp add: moveGhost_def Let_def)

section \<open>The claims\<close>




text \<open>
  C2. In every reachable state, a tick executed while Running ends with neither the actor's
  box nor any pursuer's box (hidden or not) overlapping a barrier. An actor move that would
  collide leaves the actor at its pre-tick position with zero velocity, any other move is
  carried out; a pursuer whose displaced position collides is put back at its pre-tick
  position with both velocity components negated.
\<close>

theorem no_barrier_overlap_at_tick_end:
  assumes "reachable s" and "started s" and "\<not> gameOver s"
    and "tick rnd now t1 t2 s i = Some (s', j)"
  shows "pacClear (pac s') \<and> list_all ghostClear (ghosts s') \<and>
    (if collidesBarrier (p_x (pac s) + p_dx (pac s)) (p_y (pac s) + p_dy (pac s)) PAC_SIZE
     then pac s' = (pac s)\<lparr>p_dx := 0, p_dy := 0\<rparr>
     else pac s' = (pac s)\<lparr>p_x := p_x (pac s) + p_dx (pac s),
                            p_y := p_y (pac s) + p_dy (pac s)\<rparr>) \<and>
    (\<forall>g. collidesBarrier (g_x (bounceEdges g)) (g_y (bounceEdges g)) GHOST_SIZE \<longrightarrow>
       g_x (moveGhost g) = g_x g \<and> g_y (moveGhost g) = g_y g \<and>
       g_dx (moveGhost g) = - g_dx (bounceEdges g) \<and>
       g_dy (moveGhost g) = - g_dy (bounceEdges g))"
proof -
  from assms(1) have inv: "gameInv s" by (rule reachable_gameInv)
  then have p: "pacClear (pac s)" "inFrame (pac s)" "pacSlow (pac s)"
    by (simp_all add: gameInv_def)
  from tick_gameInv [OF assms(4) inv]
  have 1: "pacClear (pac s')" "list_all ghostClear (ghosts s')"
    by (simp_all add: gameInv_def)
  from assms(4,2,3) have "pac s' = movePacman (pac s)"
    by (rule tick_running) simp
  with movePacman_inv(1) [OF p] have "pac s' = pacStep (pac s)" by simp
  then have 2: "if collidesBarrier (p_x (pac s) + p_dx (pac s)) (p_y (pac s) + p_dy (pac s)) PAC_SIZE
     then pac s' = (pac s)\<lparr>p_dx := 0, p_dy := 0\<rparr>
     else pac s' = (pac s)\<lparr>p_x := p_x (pac s) + p_dx (pac s),
                            p_y := p_y (pac s) + p_dy (pac s)\<rparr>"
    by (simp add: pacStep_def Let_def)
  have 3: "\<forall>g. collidesBarrier (g_x (bounceEdges g)) (g_y (bounceEdges g)) GHOST_SIZE \<longrightarrow>
       g_x (moveGhost g) = g_x g \<and> g_y (moveGhost g) = g_y g \<and>
       g_dx (moveGhost g) = - g_dx (bounceEdges g) \<and>
       g_dy (moveGhost g) = - g_dy (bounceEdges g)"
    by (simp add: moveGhost_def Let_def)
  from 1 2 3 show ?thesis by blast
qed

theorem no_barrier_overlap_at_tick_end_witness:
  "reachable demo_running \<and> started demo_running \<and> \<not> gameOver demo_running \<and>
   tick demo_rnd 1000 1000 1000 demo_running 21 = Some (demo_after, 34) \<and>
   pacClear (pac demo_after) \<and> list_all ghostClear (ghosts demo_after) \<and>
   pac demo_after = (pac demo_running)\<lparr>p_x := 1266 / 5\<rparr>"
  using no_barrier_overlap_at_tick_end [OF demo_reachable demo_running_flags demo_tick]
    demo_reachable demo_running_flags demo_tick
  by (simp add: demo_after_def demo_running_def demo_init_def split: if_splits)

text \<open>
  C3. The restart of the maze variant at an Ended state whose power-item has been
  captured: the key press resets the score, the actor, the pursuers (timers at 0) and the
  collectibles, but the power-item stays absent and its respawn time stays as it was;
  mounting, by contrast, spawns all three.
\<close>

theorem restart_does_not_respawn_power_item:
  "reachable demo_ended \<and> gameOver demo_ended \<and>
   apexRef demo_ended = None \<and> apexRespawnAt demo_ended = 16000 \<and>
   handleKey demo_rnd ''KeyW'' demo_ended 44 = Some (demo_restarted, 63) \<and>
   handleClick demo_rnd demo_ended 44 = Some (demo_restarted, 63) \<and>
   score demo_restarted = 0 \<and> started demo_restarted \<and> \<not> gameOver demo_restarted \<and>
   pac demo_restarted = startPacman \<and>
   ghosts demo_restarted = [demo_ghost, demo_ghost, demo_ghost] \<and>
   vulnerableUntil demo_ghost = 0 \<and> eatenUntil demo_ghost = 0 \<and>
   length (cherries demo_restarted) = 5 \<and>
   apexRef demo_restarted = None \<and> apexRespawnAt demo_restarted = 16000 \<and>
   initGame demo_rnd 0 = Some (demo_init, 21) \<and> apexRef demo_init = Some (232, 232)"
proof -
  have "handleClick demo_rnd demo_ended 44 = Some (demo_restarted, 63)"
    by (simp add: handleClick_def resetGame_def demo_spawnGhosts demo_spawnCherries)
      (simp add: demo_ended_def demo_restarted_def startPacman_def maze_consts)
  moreover have "gameOver demo_ended" "apexRef demo_ended = None" "apexRespawnAt demo_ended = 16000"
    by (simp_all add: demo_ended_def)
  moreover have "score demo_restarted = 0" "started demo_restarted" "\<not> gameOver demo_restarted"
    "pac demo_restarted = startPacman"
    "ghosts demo_restarted = [demo_ghost, demo_ghost, demo_ghost]"
    "length (cherries demo_restarted) = 5"
    "apexRef demo_restarted = None" "apexRespawnAt demo_restarted = 16000"
    by (simp_all add: demo_restarted_def startPacman_def maze_consts)
  moreover have "vulnerableUntil demo_ghost = 0" "eatenUntil demo_ghost = 0"
    "apexRef demo_init = Some (232, 232)"
    by (simp_all add: demo_ghost_def demo_init_def)
  ultimately show ?thesis
    using demo_ended_reachable demo_restart demo_initGame by blast
qed



text \<open>
  C5 (as the code has it). \<^verbatim>\<open>randomPos\<close> has no retry cap and no fallback coordinate:
  it returns the first sampled position that overlaps no barrier, having consumed two
  draws per attempt; it returns exactly when some attempt is clear, and never returns
  when every attempt is blocked.
\<close>

theorem randomPos_returns_first_clear_sample:
  "((\<forall>m<k. blocked rnd sz i m) \<and> \<not> blocked rnd sz i k \<longrightarrow>
      randomPos rnd sz i = Some (sample rnd sz i k, i + 2 * k + 2) \<and>
      \<not> collidesBarrier (fst (sample rnd sz i k)) (snd (sample rnd sz i k)) sz) \<and>
   ((\<forall>n. blocked rnd sz i n) \<longrightarrow> randomPos rnd sz i = None) \<and>
   ((\<exists>y. randomPos rnd sz i = Some y) \<longleftrightarrow> (\<exists>n. \<not> blocked rnd sz i n))"
proof -
  have 1: "(\<forall>m<k. blocked rnd sz i m) \<and> \<not> blocked rnd sz i k \<longrightarrow>
      randomPos rnd sz i = Some (sample rnd sz i k, i + 2 * k + 2) \<and>
      \<not> collidesBarrier (fst (sample rnd sz i k)) (snd (sample rnd sz i k)) sz"
    using randomPos_returns_first [of k rnd sz i] by (auto simp: blocked_def)
  have 2: "(\<forall>n. blocked rnd sz i n) \<longrightarrow> randomPos rnd sz i = None"
    using randomPos_diverges [of rnd sz i] by blast
  have 3: "(\<exists>y. randomPos rnd sz i = Some y) \<longleftrightarrow> (\<exists>n. \<not> blocked rnd sz i n)"
  proof
    assume "\<exists>y. randomPos rnd sz i = Some y"
    then show "\<exists>n. \<not> blocked rnd sz i n" using randomPos_Some_unblocked by blast
  next
    assume "\<exists>n. \<not> blocked rnd sz i n"
    then obtain n where n: "\<not> blocked rnd sz i n" "\<forall>m<n. blocked rnd sz i m"
      using exists_least_iff [of "\<lambda>n. \<not> blocked rnd sz i n"] by auto
    from randomPos_returns_first [OF n(2) n(1)] show "\<exists>y. randomPos rnd sz i = Some y"
      by blast
  qed
  from 1 2 3 show ?thesis by blast
qed

theorem randomPos_returns_first_clear_sample_witness:
  "blocked retry_rnd CHERRY_SIZE 0 0 \<and> \<not> blocked retry_rnd CHERRY_SIZE 0 1 \<and>
   randomPos retry_rnd CHERRY_SIZE 0 = Some ((237, 237), 4) \<and>
   \<not> collidesBarrier 237 237 CHERRY_SIZE \<and>
   (\<forall>n. blocked zero_rnd APEX_SIZE 7 n) \<and> randomPos zero_rnd APEX_SIZE 7 = None"
proof -
  have a: "\<forall>m<1. blocked retry_rnd CHERRY_SIZE 0 m"
    by (simp add: blocked_def sample_def retry_rnd_def collides_unfold maze_consts)
  have b: "\<not> blocked retry_rnd CHERRY_SIZE 0 1"
    by (simp add: blocked_def sample_def retry_rnd_def collides_unfold maze_consts)
  have c: "sample retry_rnd CHERRY_SIZE 0 1 = (237, 237)"
    by (simp add: sample_def retry_rnd_def maze_consts)
  have d: "\<forall>n. blocked zero_rnd APEX_SIZE 7 n"
    by (simp add: zero_blocked APEX_SIZE_def)
  from a b c d
    randomPos_returns_first_clear_sample [of 1 retry_rnd CHERRY_SIZE 0]
    randomPos_returns_first_clear_sample [of 0 zero_rnd APEX_SIZE 7]
  show ?thesis by simp
qed

theorem spawn_never_returns_counterexample:
  "randomPos zero_rnd CHERRY_SIZE 0 = None \<and> spawnCherries zero_rnd 5 0 = None \<and>
   spawnGhosts zero_rnd 0 = None \<and> spawnApex zero_rnd 0 = None \<and>
   topUp zero_rnd [] 0 = None \<and>
   randomPos (late_rnd 1000) CHERRY_SIZE 0 = Some ((237, 237), 2002)"
proof -
  have "randomPos zero_rnd CHERRY_SIZE 0 = None \<and> spawnCherries zero_rnd 5 0 = None \<and>
      spawnGhosts zero_rnd 0 = None \<and> spawnApex zero_rnd 0 = None \<and>
      topUp zero_rnd [] 0 = None"
    by (simp add: zero_randomPos spawnApex_def spawnGhosts_def spawnGhost_def topUp.simps
        eval_nat_numeral maze_consts)
  moreover have "randomPos (late_rnd 1000) CHERRY_SIZE 0 = Some ((237, 237), 2002)"
    using late_randomPos [of 1000] by simp
  ultimately show ?thesis by blast
qed

text \<open>
  C6. A tick in which the actor captures the power-item while the clock advances: the
  comparisons and the hide-after-capture assignment use the tick's timestamp 1000, the
  respawn time and the vulnerability window are computed from the later reads 1003 and
  1007, so the same state and the same timestamp give two different successor states.
\<close>

theorem power_item_handler_rereads_clock:
  "tick demo_rnd 1000 1003 1007 demo_running 21 = Some (demo_skewed, 34) \<and>
   apexRespawnAt demo_skewed = 1003 + 15000 \<and>
   list_all (\<lambda>g. vulnerableUntil g = 1007 + 10000 \<and> eatenUntil g = 1000 + 2000)
     (ghosts demo_skewed) \<and>
   tick demo_rnd 1000 1000 1000 demo_running 21 = Some (demo_after, 34) \<and>
   apexRespawnAt demo_after = 1000 + 15000 \<and>
   list_all (\<lambda>g. vulnerableUntil g = 1000 + 10000 \<and> eatenUntil g = 1000 + 2000)
     (ghosts demo_after) \<and>
   tick demo_rnd 1000 1003 1007 demo_running 21 \<noteq> tick demo_rnd 1000 1000 1000 demo_running 21"
proof -
  have a: "apexRespawnAt demo_skewed = 1003 + 15000" "apexRespawnAt demo_after = 1000 + 15000"
    "list_all (\<lambda>g. vulnerableUntil g = 1007 + 10000 \<and> eatenUntil g = 1000 + 2000)
       (ghosts demo_skewed)"
    "list_all (\<lambda>g. vulnerableUntil g = 1000 + 10000 \<and> eatenUntil g = 1000 + 2000)
       (ghosts demo_after)"
    by (simp_all add: demo_skewed_def demo_after_def demo_eaten_def)
  then have "demo_skewed \<noteq> demo_after" by auto
  then have "tick demo_rnd 1000 1003 1007 demo_running 21 \<noteq>
      tick demo_rnd 1000 1000 1000 demo_running 21"
    by (simp add: demo_tick demo_tick_skewed)
  with a demo_tick demo_tick_skewed show ?thesis by blast
qed

text \<open>
  C7. The score of a reachable state is never negative and is 0 while Idle. A tick while
  Running changes it by +1 for each collectible taken and +10 for each pursuer captured
  (maze variant), by +1 for each obstacle that passes (flight variant), and so never
  lowers it; a tick while Idle or Ended changes nothing. Input leaves the score as it is,
  except that input while Ended, which resets, makes it 0.
\<close>

theorem score_monotone_and_reset:
  "(reachable s \<longrightarrow> 0 \<le> score s \<and> (\<not> started s \<longrightarrow> score s = 0)) \<and>
   (started s \<and> \<not> gameOver s \<and> tick rnd now t1 t2 s i = Some (s', j) \<longrightarrow>
      score s' = score s
        + int (length (filter (cherryEaten (movePacman (pac s))) (cherries s)))
        + 10 * int (length (filter (capturable now (movePacman (pac s)))
                              (ghostsAtCollision rnd now t1 t2 s i))) \<and>
      score s \<le> score s') \<and>
   (\<not> (started s \<and> \<not> gameOver s) \<longrightarrow> tick rnd now t1 t2 s i = Some (s, i)) \<and>
   (handleKey rnd code s i = Some (s', j) \<longrightarrow> score s' = (if gameOver s then 0 else score s)) \<and>
   (handleClick rnd s i = Some (s', j) \<longrightarrow>
      score s' = (if started s \<and> gameOver s then 0 else score s)) \<and>
   (flappy_reachable f \<longrightarrow> 0 \<le> f_score f) \<and>
   (f_started f \<and> \<not> f_gameOver f \<longrightarrow>
      f_score (fst (flappy_tick rnd f i)) =
        f_score f + int (length (filter (\<lambda>q. \<not> scored q \<and> passing q) (pipes f))) \<and>
      f_score f \<le> f_score (fst (flappy_tick rnd f i))) \<and>
   (\<not> (f_started f \<and> \<not> f_gameOver f) \<longrightarrow> flappy_tick rnd f i = (f, i)) \<and>
   f_score (flap f) = (if f_gameOver f then 0 else f_score f) \<and>
   f_score (flappy_handleKey code f) = (if code = ''Space'' \<and> f_gameOver f then 0 else f_score f)"
proof -
  have 1: "reachable s \<longrightarrow> 0 \<le> score s \<and> (\<not> started s \<longrightarrow> score s = 0)"
    using reachable_gameInv [of s] by (auto simp: gameInv_def)
  have 2: "started s \<and> \<not> gameOver s \<and> tick rnd now t1 t2 s i = Some (s', j) \<longrightarrow>
      score s' = score s
        + int (length (filter (cherryEaten (movePacman (pac s))) (cherries s)))
        + 10 * int (length (filter (capturable now (movePacman (pac s)))
                              (ghostsAtCollision rnd now t1 t2 s i))) \<and>
      score s \<le> score s'"
    using tick_score(1) [of rnd now t1 t2 s i s' j] by auto
  have 3: "\<not> (started s \<and> \<not> gameOver s) \<longrightarrow> tick rnd now t1 t2 s i = Some (s, i)"
    using tick_idle [of s rnd now t1 t2 i] by blast
  have 4: "handleKey rnd code s i = Some (s', j) \<longrightarrow> score s' = (if gameOver s then 0 else score s)"
    using handleKey_score [of rnd code s i s' j] by blast
  have 5: "handleClick rnd s i = Some (s', j) \<longrightarrow>
      score s' = (if started s \<and> gameOver s then 0 else score s)"
    using handleClick_score [of rnd s i s' j] by blast
  have 6: "flappy_reachable f \<longrightarrow> 0 \<le> f_score f"
    using flappy_reachable_score [of f] by blast
  have 7: "f_started f \<and> \<not> f_gameOver f \<longrightarrow>
      f_score (fst (flappy_tick rnd f i)) =
        f_score f + int (length (filter (\<lambda>q. \<not> scored q \<and> passing q) (pipes f))) \<and>
      f_score f \<le> f_score (fst (flappy_tick rnd f i))"
    using flappy_tick_running(2) [of f rnd i] flappy_tick_score_mono [of f rnd i] by blast
  have 8: "\<not> (f_started f \<and> \<not> f_gameOver f) \<longrightarrow> flappy_tick rnd f i = (f, i)"
    using flappy_tick_idle [of f rnd i] by blast
  have 9: "f_score (flap f) = (if f_gameOver f then 0 else f_score f)"
    by (rule flap_score)
  have 10: "f_score (flappy_handleKey code f) =
      (if code = ''Space'' \<and> f_gameOver f then 0 else f_score f)"
    by (simp add: flappy_handleKey_def flap_score)
  from 1 2 3 4 5 6 7 8 9 10 show ?thesis by blast
qed

theorem score_monotone_and_reset_witness:
  "reachable demo_running \<and> score demo_running = 0 \<and>
   started demo_running \<and> \<not> gameOver demo_running \<and>
   tick demo_rnd 1000 1000 1000 demo_running 21 = Some (demo_after, 34) \<and>
   score demo_after = 35 \<and> score demo_running \<le> score demo_after \<and>
   reachable demo_ended \<and> score demo_ended = 40 \<and> gameOver demo_ended \<and>
   tick demo_rnd 13000 13000 13000 demo_ended 44 = Some (demo_ended, 44) \<and>
   handleKey demo_rnd ''KeyW'' demo_ended 44 = Some (demo_restarted, 63) \<and>
   score demo_restarted = 0 \<and>
   flappy_reachable flappy_init \<and> 0 \<le> f_score flappy_init \<and>
   f_started demo_flappy \<and> \<not> f_gameOver demo_flappy \<and>
   f_score demo_flappy \<le> f_score (fst (flappy_tick demo_rnd demo_flappy 21)) \<and>
   f_score (flap (demo_flappy\<lparr>f_gameOver := True\<rparr>)) = 0"
proof -
  note A = score_monotone_and_reset [of demo_running demo_rnd 1000 1000 1000 21 demo_after 34
      "''KeyW''" demo_flappy]
  note B = score_monotone_and_reset [of demo_ended demo_rnd 13000 13000 13000 44 demo_restarted 63
      "''KeyW''" "demo_flappy\<lparr>f_gameOver := True\<rparr>"]
  note C = score_monotone_and_reset [of demo_running demo_rnd 1000 1000 1000 21 demo_after 34
      "''KeyW''" flappy_init]
  have e: "gameOver demo_ended" "score demo_ended = 40" "score demo_restarted = 0"
    "score demo_after = 35" "score demo_running = 0"
    by (simp_all add: demo_ended_def demo_restarted_def demo_after_def demo_running_def
        demo_init_def)
  have f: "f_started demo_flappy" "\<not> f_gameOver demo_flappy"
    by (simp_all add: demo_flappy_def)
  have 1: "0 \<le> score demo_running \<and> score demo_running \<le> score demo_after"
    using A demo_reachable demo_running_flags demo_tick by simp
  have 2: "tick demo_rnd 13000 13000 13000 demo_ended 44 = Some (demo_ended, 44)"
    using B e by simp
  have 3: "f_score demo_flappy \<le> f_score (fst (flappy_tick demo_rnd demo_flappy 21))"
    using A f by simp
  have 4: "f_score (flap (demo_flappy\<lparr>f_gameOver := True\<rparr>)) = 0"
    using B by simp
  have 5: "0 \<le> f_score flappy_init"
    using C freach_init by simp
  from 1 2 3 4 5 e f demo_reachable demo_running_flags demo_tick demo_ended_reachable
    demo_restart freach_init
  show ?thesis by blast
qed

text \<open>
  C8 (as the code has it). In a tick executed while Running, the movement loop leaves a
  hidden pursuer as it is and handles every other pursuer in two steps, against the actor
  as already moved in this tick. First the displacement: an edge bounce negates one
  velocity component and a barrier revert both, so the heading can change here. Then the
  steering of the displaced pursuer: when it is not vulnerable and closer than the chase
  radius to the actor, its velocity becomes the vector of length \<open>GHOST_SPEED\<close> pointing
  at the actor, without a draw; otherwise one draw decides: below 0.02, a second draw
  \<open>d\<close> gives the new heading \<open>2\<pi>d\<close> at the same speed, else the steering leaves the
  velocity as the displacement left it. The power-item handler does not touch position or
  velocity, and a pursuer that the collision loop does not capture ends the tick as the
  movement loop left it. Every pursuer of a reachable state moves at \<open>GHOST_SPEED\<close>
  after the tick.
\<close>

theorem pursuer_steering_in_tick:
  assumes "started s" and "\<not> gameOver s" and "tick rnd now t1 t2 s i = Some (s', j)"
    and "k < length (ghosts s)"
  shows
    "pac s' = movePacman (pac s) \<and>
     length (ghosts s') = length (ghosts s) \<and>
     length (ghostsAtCollision rnd now t1 t2 s i) = length (ghosts s) \<and>
     (isHidden now (ghosts s ! k) \<longrightarrow>
        sameMotion (ghostsAtCollision rnd now t1 t2 s i ! k) (ghosts s ! k)) \<and>
     (\<not> isHidden now (ghosts s ! k) \<longrightarrow>
        sameMotion (ghostsAtCollision rnd now t1 t2 s i ! k)
          (fst (steerGhost rnd now (pac s') (moveGhost (ghosts s ! k))
                  (steerIndex rnd now (pac s') (ghosts s) i k)))) \<and>
     (\<not> capturable now (pac s') (ghostsAtCollision rnd now t1 t2 s i ! k) \<longrightarrow>
        ghosts s' ! k = ghostsAtCollision rnd now t1 t2 s i ! k) \<and>
     (reachable s \<longrightarrow> list_all (\<lambda>g. ghostSpeed g = GHOST_SPEED) (ghosts s')) \<and>
     (chasing now p g \<longrightarrow>
        steerGhost r now p g n =
          (g\<lparr>g_dx := cos (atan2 (p_y p - g_y g) (p_x p - g_x g)) * GHOST_SPEED,
              g_dy := sin (atan2 (p_y p - g_y g) (p_x p - g_x g)) * GHOST_SPEED\<rparr>, n) \<and>
        ghostSpeed (fst (steerGhost r now p g n)) = GHOST_SPEED \<and>
        (p_x p \<noteq> g_x g \<or> p_y p \<noteq> g_y g \<longrightarrow>
           g_dx (fst (steerGhost r now p g n)) =
             GHOST_SPEED * (p_x p - g_x g) / hypot (p_x p - g_x g) (p_y p - g_y g) \<and>
           g_dy (fst (steerGhost r now p g n)) =
             GHOST_SPEED * (p_y p - g_y g) / hypot (p_x p - g_x g) (p_y p - g_y g))) \<and>
     (\<not> chasing now p g \<and> r n < 2 / 100 \<longrightarrow>
        steerGhost r now p g n =
          (g\<lparr>g_dx := cos (r (n + 1) * pi * 2) * GHOST_SPEED,
              g_dy := sin (r (n + 1) * pi * 2) * GHOST_SPEED\<rparr>, n + 2) \<and>
        ghostSpeed (fst (steerGhost r now p g n)) = GHOST_SPEED) \<and>
     (\<not> chasing now p g \<and> \<not> r n < 2 / 100 \<longrightarrow> steerGhost r now p g n = (g, n + 1)) \<and>
     chasing now p g =
       (hypot (p_x p - g_x g) (p_y p - g_y g) < CHASE_RADIUS \<and> vulnerableUntil g \<le> now) \<and>
     ghostSpeed (moveGhost g) = ghostSpeed g \<and>
     vulnerableUntil (moveGhost g) = vulnerableUntil g \<and>
     (g_dx (moveGhost g) = g_dx g \<or> g_dx (moveGhost g) = - g_dx g) \<and>
     (g_dy (moveGhost g) = g_dy g \<or> g_dy (moveGhost g) = - g_dy g) \<and>
     (collidesBarrier (g_x (bounceEdges g)) (g_y (bounceEdges g)) GHOST_SIZE \<longrightarrow>
        g_x (moveGhost g) = g_x g \<and> g_y (moveGhost g) = g_y g \<and>
        g_dx (moveGhost g) = - g_dx (bounceEdges g) \<and>
        g_dy (moveGhost g) = - g_dy (bounceEdges g))"
proof -
  let ?p = "movePacman (pac s)"
  let ?a = "ghostsAtCollision rnd now t1 t2 s i ! k"
  let ?g = "ghosts s ! k"
  have p: "pac s' = ?p"
    using assms(3,1,2) by (rule tick_running) simp
  note m = tick_ghost_motion [OF assms(3,1,2,4)]
  have u: "fst (updateGhost rnd now ?p ?g (steerIndex rnd now ?p (ghosts s) i k)) =
      (if isHidden now ?g then ?g
       else fst (steerGhost rnd now ?p (moveGhost ?g) (steerIndex rnd now ?p (ghosts s) i k)))"
    by (simp add: updateGhost_def isHidden_def)
  have 1: "isHidden now ?g \<longrightarrow> sameMotion ?a ?g"
    using m(3) u by (auto split: if_splits)
  have 2: "\<not> isHidden now ?g \<longrightarrow>
      sameMotion ?a (fst (steerGhost rnd now (pac s') (moveGhost ?g)
                            (steerIndex rnd now (pac s') (ghosts s) i k)))"
    using m(3) u p by (auto split: if_splits)
  have 3: "\<not> capturable now (pac s') ?a \<longrightarrow> ghosts s' ! k = ?a"
    using m(4) p by simp
  have 4: "reachable s \<longrightarrow> list_all (\<lambda>g. ghostSpeed g = GHOST_SPEED) (ghosts s')"
  proof
    assume "reachable s"
    then have "reachable s'" using assms(3) by (rule reach_tick)
    then show "list_all (\<lambda>g. ghostSpeed g = GHOST_SPEED) (ghosts s')"
      using reachable_gameInv [of s'] by (simp add: gameInv_def)
  qed
  have 5: "chasing now p g \<longrightarrow>
        steerGhost r now p g n =
          (g\<lparr>g_dx := cos (atan2 (p_y p - g_y g) (p_x p - g_x g)) * GHOST_SPEED,
              g_dy := sin (atan2 (p_y p - g_y g) (p_x p - g_x g)) * GHOST_SPEED\<rparr>, n) \<and>
        ghostSpeed (fst (steerGhost r now p g n)) = GHOST_SPEED \<and>
        (p_x p \<noteq> g_x g \<or> p_y p \<noteq> g_y g \<longrightarrow>
           g_dx (fst (steerGhost r now p g n)) =
             GHOST_SPEED * (p_x p - g_x g) / hypot (p_x p - g_x g) (p_y p - g_y g) \<and>
           g_dy (fst (steerGhost r now p g n)) =
             GHOST_SPEED * (p_y p - g_y g) / hypot (p_x p - g_x g) (p_y p - g_y g))"
  proof
    assume c: "chasing now p g"
    have a: "steerGhost r now p g n =
        (g\<lparr>g_dx := cos (atan2 (p_y p - g_y g) (p_x p - g_x g)) * GHOST_SPEED,
            g_dy := sin (atan2 (p_y p - g_y g) (p_x p - g_x g)) * GHOST_SPEED\<rparr>, n)"
      using c by (simp add: steerGhost_cases)
    have b: "ghostSpeed (fst (steerGhost r now p g n)) = GHOST_SPEED"
      using c by (rule steerGhost_speed_set [OF disjI1])
    have d: "p_x p \<noteq> g_x g \<or> p_y p \<noteq> g_y g \<longrightarrow>
         g_dx (fst (steerGhost r now p g n)) =
           GHOST_SPEED * (p_x p - g_x g) / hypot (p_x p - g_x g) (p_y p - g_y g) \<and>
         g_dy (fst (steerGhost r now p g n)) =
           GHOST_SPEED * (p_y p - g_y g) / hypot (p_x p - g_x g) (p_y p - g_y g)"
      using steerGhost_aim [OF c, of r n] by blast
    from a b d show "steerGhost r now p g n =
          (g\<lparr>g_dx := cos (atan2 (p_y p - g_y g) (p_x p - g_x g)) * GHOST_SPEED,
              g_dy := sin (atan2 (p_y p - g_y g) (p_x p - g_x g)) * GHOST_SPEED\<rparr>, n) \<and>
        ghostSpeed (fst (steerGhost r now p g n)) = GHOST_SPEED \<and>
        (p_x p \<noteq> g_x g \<or> p_y p \<noteq> g_y g \<longrightarrow>
           g_dx (fst (steerGhost r now p g n)) =
             GHOST_SPEED * (p_x p - g_x g) / hypot (p_x p - g_x g) (p_y p - g_y g) \<and>
           g_dy (fst (steerGhost r now p g n)) =
             GHOST_SPEED * (p_y p - g_y g) / hypot (p_x p - g_x g) (p_y p - g_y g))"
      by blast
  qed
  have 6: "\<not> chasing now p g \<and> r n < 2 / 100 \<longrightarrow>
        steerGhost r now p g n =
          (g\<lparr>g_dx := cos (r (n + 1) * pi * 2) * GHOST_SPEED,
              g_dy := sin (r (n + 1) * pi * 2) * GHOST_SPEED\<rparr>, n + 2) \<and>
        ghostSpeed (fst (steerGhost r now p g n)) = GHOST_SPEED"
  proof
    assume c: "\<not> chasing now p g \<and> r n < 2 / 100"
    then have a: "steerGhost r now p g n =
        (g\<lparr>g_dx := cos (r (n + 1) * pi * 2) * GHOST_SPEED,
            g_dy := sin (r (n + 1) * pi * 2) * GHOST_SPEED\<rparr>, n + 2)"
      by (simp add: steerGhost_cases)
    from c have "ghostSpeed (fst (steerGhost r now p g n)) = GHOST_SPEED"
      by (intro steerGhost_speed_set) simp
    with a show "steerGhost r now p g n =
          (g\<lparr>g_dx := cos (r (n + 1) * pi * 2) * GHOST_SPEED,
              g_dy := sin (r (n + 1) * pi * 2) * GHOST_SPEED\<rparr>, n + 2) \<and>
        ghostSpeed (fst (steerGhost r now p g n)) = GHOST_SPEED"
      by blast
  qed
  have 7: "\<not> chasing now p g \<and> \<not> r n < 2 / 100 \<longrightarrow> steerGhost r now p g n = (g, n + 1)"
    by (simp add: steerGhost_cases)
  have 8: "chasing now p g =
       (hypot (p_x p - g_x g) (p_y p - g_y g) < CHASE_RADIUS \<and> vulnerableUntil g \<le> now)"
    by (auto simp: chasing_def isVulnerable_def)
  have 9: "ghostSpeed (moveGhost g) = ghostSpeed g" "vulnerableUntil (moveGhost g) = vulnerableUntil g"
    by (simp_all add: moveGhost_speed)
  note 10 = moveGhost_velocity [of g]
  have 11: "collidesBarrier (g_x (bounceEdges g)) (g_y (bounceEdges g)) GHOST_SIZE \<longrightarrow>
        g_x (moveGhost g) = g_x g \<and> g_y (moveGhost g) = g_y g \<and>
        g_dx (moveGhost g) = - g_dx (bounceEdges g) \<and>
        g_dy (moveGhost g) = - g_dy (bounceEdges g)"
    using moveGhost_revert [of g] by blast
  from p m(1,2) 1 2 3 4 5 6 7 8 9 10 11 show ?thesis by blast
qed


theorem pursuer_steering_in_tick_witness:
  "started wall_running \<and> \<not> gameOver wall_running \<and>
   tick wall_rnd 1000 1000 1000 wall_running 21 = Some (wall_after, 34) \<and>
   (0::nat) < length (ghosts wall_running) \<and>
   reachable wall_running \<and>
   \<not> isHidden 1000 (ghosts wall_running ! 0) \<and>
   sameMotion (ghostsAtCollision wall_rnd 1000 1000 1000 wall_running 21 ! 0)
     (wall_ghost\<lparr>g_dx := - 2\<rparr>) \<and>
   \<not> capturable 1000 (pac wall_after)
       (ghostsAtCollision wall_rnd 1000 1000 1000 wall_running 21 ! 0) \<and>
   ghosts wall_after ! 0 = ghostsAtCollision wall_rnd 1000 1000 1000 wall_running 21 ! 0 \<and>
   list_all (\<lambda>g. ghostSpeed g = GHOST_SPEED) (ghosts wall_after) \<and>
   collidesBarrier (g_x (bounceEdges wall_ghost)) (g_y (bounceEdges wall_ghost)) GHOST_SIZE \<and>
   g_x (moveGhost wall_ghost) = 15 \<and> g_dx (moveGhost wall_ghost) = - 2 \<and>
   started demo_after \<and> \<not> gameOver demo_after \<and>
   tick demo_rnd 1016 1016 1016 demo_after 34 = Some (demo_hidden_tick, 44) \<and>
   (0::nat) < length (ghosts demo_after) \<and>
   isHidden 1016 (ghosts demo_after ! 0) \<and>
   sameMotion (ghostsAtCollision demo_rnd 1016 1016 1016 demo_after 34 ! 0)
     (ghosts demo_after ! 0) \<and>
   chasing 1000 \<lparr>p_x = 250, p_y = 250, p_dx = 0, p_dy = 0\<rparr>
     \<lparr>g_x = 150, g_y = 250, g_dx = 0, g_dy = 2, vulnerableUntil = 0, eatenUntil = 0\<rparr> \<and>
   steerGhost demo_rnd 1000 \<lparr>p_x = 250, p_y = 250, p_dx = 0, p_dy = 0\<rparr>
     \<lparr>g_x = 150, g_y = 250, g_dx = 0, g_dy = 2, vulnerableUntil = 0, eatenUntil = 0\<rparr> 5 =
     (\<lparr>g_x = 150, g_y = 250, g_dx = 2, g_dy = 0, vulnerableUntil = 0, eatenUntil = 0\<rparr>, 5) \<and>
   \<not> chasing 1000 \<lparr>p_x = 250, p_y = 250, p_dx = 0, p_dy = 0\<rparr>
     \<lparr>g_x = 150, g_y = 250, g_dx = 0, g_dy = 2, vulnerableUntil = 5000, eatenUntil = 0\<rparr> \<and>
   zero_rnd 5 < 2 / 100 \<and>
   steerGhost zero_rnd 1000 \<lparr>p_x = 250, p_y = 250, p_dx = 0, p_dy = 0\<rparr>
     \<lparr>g_x = 150, g_y = 250, g_dx = 0, g_dy = 2, vulnerableUntil = 5000, eatenUntil = 0\<rparr> 5 =
     (\<lparr>g_x = 150, g_y = 250, g_dx = 2, g_dy = 0, vulnerableUntil = 5000, eatenUntil = 0\<rparr>, 7) \<and>
   \<not> demo_rnd 5 < 2 / 100 \<and>
   steerGhost demo_rnd 1000 \<lparr>p_x = 250, p_y = 250, p_dx = 0, p_dy = 0\<rparr>
     \<lparr>g_x = 150, g_y = 250, g_dx = 0, g_dy = 2, vulnerableUntil = 5000, eatenUntil = 0\<rparr> 5 =
     (\<lparr>g_x = 150, g_y = 250, g_dx = 0, g_dy = 2, vulnerableUntil = 5000, eatenUntil = 0\<rparr>, 6)"
proof -
  let ?p = "\<lparr>p_x = 250, p_y = 250, p_dx = 0, p_dy = 0\<rparr>"
  let ?g = "\<lparr>g_x = 150, g_y = 250, g_dx = 0, g_dy = 2, vulnerableUntil = 0, eatenUntil = 0\<rparr>"
  let ?v = "\<lparr>g_x = 150, g_y = 250, g_dx = 0, g_dy = 2, vulnerableUntil = 5000, eatenUntil = 0\<rparr>"
  let ?a = "ghostsAtCollision wall_rnd 1000 1000 1000 wall_running 21 ! 0"
  have k: "(0::nat) < length (ghosts wall_running)" "(0::nat) < length (ghosts demo_after)"
    by (simp_all add: wall_running_fields demo_after_fields)
  note W = wall_running_fields(1,2) wall_tick k(1)
  note H = demo_after_fields(1,2) demo_tick_hidden k(2)
  note A = pursuer_steering_in_tick [OF W, where p = ?p and g = ?g and r = demo_rnd and n = 5]
  note B = pursuer_steering_in_tick [OF H, where p = ?p and g = ?v and r = zero_rnd and n = 5]
  note B2 = pursuer_steering_in_tick [OF W, where p = ?p and g = ?v and r = zero_rnd and n = 5]
  note C = pursuer_steering_in_tick [OF W, where p = ?p and g = ?v and r = demo_rnd and n = 5]
  note D = pursuer_steering_in_tick [OF W, where p = ?p and g = wall_ghost and r = demo_rnd
      and n = 5]
  have c: "chasing 1000 ?p ?g" "\<not> chasing 1000 ?p ?v"
    by (simp_all add: chasing_def isVulnerable_def hypot_less_iff maze_consts)
  have r: "zero_rnd 5 < 2 / 100" "\<not> demo_rnd 5 < 2 / 100" "zero_rnd (5 + 1) = 0"
    by (simp_all add: zero_rnd_def demo_rnd_def)
  have at: "atan2 0 100 = 0" by (simp add: atan2_def)
  have 1: "steerGhost demo_rnd 1000 ?p ?g 5 =
      (\<lparr>g_x = 150, g_y = 250, g_dx = 2, g_dy = 0, vulnerableUntil = 0, eatenUntil = 0\<rparr>, 5)"
    using A c by (simp add: at GHOST_SPEED_def)
  have 2: "steerGhost zero_rnd 1000 ?p ?v 5 =
      (\<lparr>g_x = 150, g_y = 250, g_dx = 2, g_dy = 0, vulnerableUntil = 5000, eatenUntil = 0\<rparr>, 7)"
    using B2 c r by (simp add: GHOST_SPEED_def)
  have 3: "steerGhost demo_rnd 1000 ?p ?v 5 = (?v, 6)"
    using C c r by simp
  have nh: "\<not> isHidden 1000 (ghosts wall_running ! 0)"
    by (simp add: wall_running_fields isHidden_def wall_ghost_def)
  have st: "fst (steerGhost wall_rnd 1000 (pac wall_after) (moveGhost (ghosts wall_running ! 0))
      (steerIndex wall_rnd 1000 (pac wall_after) (ghosts wall_running) 21 0)) =
      wall_ghost\<lparr>g_dx := - 2\<rparr>"
    by (simp add: wall_running_fields wall_moveGhost steerGhost_def Let_def hypot_less_iff
        wall_rnd_late maze_consts wall_after_def)
      (simp add: wall_ghost_def)
  have 4: "sameMotion ?a (wall_ghost\<lparr>g_dx := - 2\<rparr>)"
  proof -
    from A nh have "sameMotion ?a
        (fst (steerGhost wall_rnd 1000 (pac wall_after) (moveGhost (ghosts wall_running ! 0))
           (steerIndex wall_rnd 1000 (pac wall_after) (ghosts wall_running) 21 0)))"
      by blast
    then show ?thesis unfolding st .
  qed
  have nc: "\<not> capturable 1000 (pac wall_after) ?a"
    by (simp add: wall_ghostsAtCollision capturable_def ghostContact_def wall_turned_def
        wall_after_def hypot_less_iff maze_consts)
  have 5: "ghosts wall_after ! 0 = ?a"
    using A nc by blast
  have 6: "list_all (\<lambda>g. ghostSpeed g = GHOST_SPEED) (ghosts wall_after)"
    using A wall_reachable by blast
  have col: "collidesBarrier (g_x (bounceEdges wall_ghost)) (g_y (bounceEdges wall_ghost)) GHOST_SIZE"
    by (simp add: bounceEdges_def wall_ghost_def Let_def collides_unfold maze_consts)
  have 7: "g_x (moveGhost wall_ghost) = 15 \<and> g_dx (moveGhost wall_ghost) = - 2"
  proof -
    from D col have "g_x (moveGhost wall_ghost) = g_x wall_ghost \<and>
        g_dx (moveGhost wall_ghost) = - g_dx (bounceEdges wall_ghost)"
      by blast
    then show ?thesis
      by (simp add: bounceEdges_def wall_ghost_def Let_def maze_consts)
  qed
  have hd: "isHidden 1016 (ghosts demo_after ! 0)"
    by (simp add: demo_after_fields isHidden_def demo_eaten_def)
  have 8: "sameMotion (ghostsAtCollision demo_rnd 1016 1016 1016 demo_after 34 ! 0)
      (ghosts demo_after ! 0)"
    using B hd by blast
  from 1 2 3 4 5 6 7 8 c r(1,2) nh nc col hd k W(1,2,3) H(1,2,3) wall_reachable
  show ?thesis by blast
qed

theorem barrier_revert_turns_pursuer_counterexample:
  "reachable wall_running \<and> started wall_running \<and> \<not> gameOver wall_running \<and>
   tick wall_rnd 1000 1000 1000 wall_running 21 = Some (wall_after, 34) \<and>
   ghosts wall_running = [wall_ghost, wall_ghost, wall_ghost] \<and>
   ghosts wall_after = [wall_turned, wall_turned, wall_turned] \<and>
   \<not> isHidden 1000 wall_ghost \<and>
   \<not> hypot (p_x (pac wall_after) - g_x wall_ghost) (p_y (pac wall_after) - g_y wall_ghost)
       < CHASE_RADIUS \<and>
   \<not> hypot (p_x (pac wall_after) - g_x wall_turned) (p_y (pac wall_after) - g_y wall_turned)
       < CHASE_RADIUS \<and>
   \<not> wall_rnd 21 < 2 / 100 \<and> \<not> wall_rnd 22 < 2 / 100 \<and> \<not> wall_rnd 23 < 2 / 100 \<and>
   g_x wall_turned = g_x wall_ghost \<and> g_y wall_turned = g_y wall_ghost \<and>
   g_dx wall_ghost = 2 \<and> g_dy wall_ghost = 0 \<and>
   g_dx wall_turned = - 2 \<and> g_dy wall_turned = 0"
proof -
  have "\<not> isHidden 1000 wall_ghost"
    by (simp add: isHidden_def wall_ghost_def)
  moreover have
    "\<not> hypot (p_x (pac wall_after) - g_x wall_ghost) (p_y (pac wall_after) - g_y wall_ghost)
       < CHASE_RADIUS"
    "\<not> hypot (p_x (pac wall_after) - g_x wall_turned) (p_y (pac wall_after) - g_y wall_turned)
       < CHASE_RADIUS"
    by (simp_all add: wall_after_def wall_ghost_def wall_turned_def hypot_less_iff maze_consts)
  moreover have "\<not> wall_rnd 21 < 2 / 100" "\<not> wall_rnd 22 < 2 / 100" "\<not> wall_rnd 23 < 2 / 100"
    by (simp_all add: wall_rnd_def)
  moreover have "g_x wall_turned = g_x wall_ghost" "g_y wall_turned = g_y wall_ghost"
    "g_dx wall_ghost = 2" "g_dy wall_ghost = 0" "g_dx wall_turned = - 2" "g_dy wall_turned = 0"
    "ghosts wall_after = [wall_turned, wall_turned, wall_turned]"
    by (simp_all add: wall_ghost_def wall_turned_def wall_after_def)
  ultimately show ?thesis
    using wall_reachable wall_running_fields(1,2,3) wall_tick by blast
qed

text \<open>
  C9. The overlap test of \<^verbatim>\<open>collidesBarrier\<close> is the specification's box test with the
  moving square as first box; the test is symmetric, a box of positive width and height
  overlaps itself, and boxes whose edges exactly touch (in any of the four directions) do
  not overlap.
\<close>

theorem overlap_test_properties:
  "hitsBarrier x y sz b = overlaps_spec (mk_barrier x y sz sz) b
   \<and> overlaps_spec a b = overlaps_spec b a
   \<and> hitsBarrier x y sz (mk_barrier x' y' sz' sz') = hitsBarrier x' y' sz' (mk_barrier x y sz sz)
   \<and> (0 < b_w a \<and> 0 < b_h a \<longrightarrow> overlaps_spec a a)
   \<and> (0 < sz \<longrightarrow> hitsBarrier x y sz (mk_barrier x y sz sz))
   \<and> (b_x a + b_w a = b_x b \<or> b_x b + b_w b = b_x a \<or>
      b_y a + b_h a = b_y b \<or> b_y b + b_h b = b_y a \<longrightarrow> \<not> overlaps_spec a b)
   \<and> (x + sz = b_x b \<or> b_x b + b_w b = x \<or> y + sz = b_y b \<or> b_y b + b_h b = y
        \<longrightarrow> \<not> hitsBarrier x y sz b)"
  by (auto simp: hitsBarrier_def overlaps_spec_def mk_barrier_def)

theorem overlap_test_properties_witness:
  "hitsBarrier 3 4 34 (mk_barrier 3 4 34 34)
   \<and> overlaps_spec (mk_barrier 0 0 10 500) (mk_barrier 0 0 10 500)
   \<and> \<not> hitsBarrier 16 200 34 (mk_barrier 50 150 10 200)
   \<and> \<not> overlaps_spec (mk_barrier 40 0 10 500) (mk_barrier 50 150 10 200)"
  using overlap_test_properties [of 3 4 34 "mk_barrier 0 0 10 500" "mk_barrier 0 0 10 500" 3 4 34]
        overlap_test_properties [of 16 200 34 "mk_barrier 50 150 10 200" "mk_barrier 40 0 10 500" 0 0 1]
  unfolding hitsBarrier_def overlaps_spec_def mk_barrier_def
  by simp

text \<open>
  C10. After every tick executed while Running, whatever the actor's velocity, the actor's
  position is inside the frame: \<open>10 \<le> x \<le> width - PAC_SIZE - 10\<close> and
  \<open>10 \<le> y \<le> height - PAC_SIZE - 10\<close>; the position is the clamp of the moved or
  reverted one.
\<close>

theorem actor_inside_frame_after_tick:
  assumes "started s" and "\<not> gameOver s" and "tick rnd now t1 t2 s i = Some (s', j)"
  shows "pac s' = pacClamp (pacStep (pac s)) \<and>
         10 \<le> p_x (pac s') \<and> p_x (pac s') \<le> width - PAC_SIZE - 10 \<and>
         10 \<le> p_y (pac s') \<and> p_y (pac s') \<le> height - PAC_SIZE - 10"
proof -
  from assms(3,1,2) have "pac s' = movePacman (pac s)"
    by (rule tick_running) simp
  then have "pac s' = pacClamp (pacStep (pac s))" by (simp add: movePacman_def)
  with pacClamp_inFrame [of "pacStep (pac s)"] show ?thesis
    by (simp add: inFrame_def)
qed

theorem actor_inside_frame_after_tick_witness:
  "started demo_running \<and> \<not> gameOver demo_running \<and>
   tick demo_rnd 1000 1000 1000 demo_running 21 = Some (demo_after, 34) \<and>
   10 \<le> p_x (pac demo_after) \<and> p_x (pac demo_after) \<le> width - PAC_SIZE - 10 \<and>
   10 \<le> p_y (pac demo_after) \<and> p_y (pac demo_after) \<le> height - PAC_SIZE - 10"
  using actor_inside_frame_after_tick [OF demo_running_flags demo_tick]
    demo_running_flags demo_tick
  by blast

end
